theory Spec2Isabelle
  imports Complex_Main "HOL-Library.AList" "HOL-Library.Log_Nat"
begin

section \<open>Column letters (client/src/components/spreadsheet/ResizableGrid.tsx, client/src/pages/spreadsheet.tsx)\<close>

text \<open>
  \<^verbatim>\<open>String.fromCharCode(code)\<close>. Column codes stay far below 256, where the one-byte
  \<^typ>\<open>char\<close> of HOL and the UTF-16 code unit of the source coincide.
\<close>

definition fromCharCode :: "int \<Rightarrow> char" where
  "fromCharCode code = char_of code"

text \<open>
  The \<open>number\<close>s of the source are IEEE 754 doubles. \<open>roundHalfEven\<close> is the integer
  nearest to a rational, the even one of two equally near; \<open>binaryExponent x\<close> is the \<open>e\<close>
  with \<open>2^e \<le> x < 2^(e+1)\<close> for a positive \<open>x\<close>; the doubles between these two powers
  are the multiples of \<open>2^(e-52)\<close>, and \<open>toDouble x\<close> is the one nearest to \<open>x\<close>, which
  is what an arithmetic operation of exact result \<open>x\<close> returns. The exponent range of
  the doubles is not modelled: from a finite \<open>col\<close> the loop below only computes numbers
  between 1/26 and \<open>col\<close>.
\<close>

definition roundHalfEven :: "rat \<Rightarrow> int" where
  "roundHalfEven x =
     (let f = \<lfloor>x\<rfloor>; d = x - of_int f
      in if d < 1 / 2 then f else if 1 / 2 < d then f + 1 else if even f then f else f + 1)"

definition binaryExponent :: "rat \<Rightarrow> int" where
  "binaryExponent x =
     (case quotient_of x of (a, b) \<Rightarrow>
        let k = bitlen a - bitlen b
        in if of_int b * 2 powi k \<le> (of_int a :: rat) then k else k - 1)"

definition toDouble :: "rat \<Rightarrow> rat" where
  "toDouble x =
     (let a = \<bar>x\<bar>; ulp = 2 powi (binaryExponent a - 52)
      in sgn x * ulp * of_int (roundHalfEven (a / ulp)))"

text \<open>
  \<^verbatim>\<open>
  const getColumnLetter = (col: number) => {
    let result = "";
    while (col > 0) {
      col--;
      result = String.fromCharCode(65 + (col % 26)) + result;
      col = Math.floor(col / 26);
    }
    return result;
  };
  \<close>
  The loop state is the pair of \<open>col\<close> and \<open>result\<close>. \<open>col\<close> is a double that holds an
  integer (a column number), and stays one: \<open>col--\<close> is the double nearest to \<open>col - 1\<close>
  (\<open>col1\<close>, an integer again, so that the floor around it only changes the type),
  \<open>col % 26\<close> is exact, and \<open>col / 26\<close> is the double nearest to the quotient. Up to
  \<open>2^53\<close> every integer is a double and the loop is the loop on the integers
  (\<open>getColumnLetter_loop_exact\<close> below); above, \<open>col--\<close> rounds.
\<close>

function getColumnLetter_loop :: "int \<Rightarrow> string \<Rightarrow> string" where
  "getColumnLetter_loop col result =
     (if col > 0
      then (let col1 = \<lfloor>toDouble (of_int col - 1)\<rfloor>
            in getColumnLetter_loop \<lfloor>toDouble (of_int col1 / 26)\<rfloor>
                 (fromCharCode (65 + col1 mod 26) # result))
      else result)"
  by pat_completeness auto

definition getColumnLetter :: "int \<Rightarrow> string" where
  "getColumnLetter col = getColumnLetter_loop col []"

text \<open>
  The toast of \<open>handleCellUpdate\<close> (and the other labels of spreadsheet.tsx and
  spreadsheet-new.tsx) render the column as \<^verbatim>\<open>String.fromCharCode(64 + column)\<close>.
\<close>

definition cellLabelLetter :: "int \<Rightarrow> string" where
  "cellLabelLetter column = [fromCharCode (64 + column)]"

text \<open>
  The encoding the column letters stand for, read back: \<open>A\<close> is 1, \<open>Z\<close> is 26, and each
  further letter to the left is one more base-26 digit (so \<open>AA\<close> is 27).
\<close>

definition letterValue :: "char \<Rightarrow> int" where
  "letterValue c = of_char c - 64"

definition columnNumber :: "string \<Rightarrow> int" where
  "columnNumber s = foldl (\<lambda>acc c. acc * 26 + letterValue c) 0 s"

definition isUpperLetter :: "char \<Rightarrow> bool" where
  "isUpperLetter c = (65 \<le> (of_char c :: nat) \<and> (of_char c :: nat) \<le> 90)"

section \<open>The cell store (JsonFileStorage, src/unnamed/part_001)\<close>

text \<open>
  The \<open>Cell\<close> objects as \<open>createCell\<close> and \<open>initializeSampleData\<close> build them. The
  declaration of \<open>Cell\<close> (\<open>@shared/schema\<close>) is not among the sources; the fields are those
  of the object literals, and \<open>calculated_value\<close>, which the storage never sets and the
  grid reads with \<^verbatim>\<open>'calculated_value' in cell\<close> (\<open>None\<close>: the key is absent). A
  \<open>value\<close>, \<open>formula\<close> or \<open>formatting\<close> that is \<open>undefined\<close> or \<open>null\<close> is \<open>None\<close>; the
  formatting object is kept as opaque text; a \<open>Date\<close> is a clock reading.
\<close>

record Cell =
  id' :: int
  sheetId :: int
  row :: int
  column :: int
  value' :: "string option"
  formula :: "string option"
  dataType :: string
  formatting :: "string option"
  createdAt :: nat
  updatedAt :: nat
  calculated_value :: "string option"

text \<open>
  \<open>Partial<Cell>\<close>, the \<open>updates\<close> of a write (the PUT route passes the request body as it
  is): every key may be absent (\<open>None\<close>). A nullable field that is present holds
  \<open>Some None\<close> for \<open>null\<close>.
\<close>

record PartialCell =
  upd_id :: "int option"
  upd_sheetId :: "int option"
  upd_row :: "int option"
  upd_column :: "int option"
  upd_value :: "string option option"
  upd_formula :: "string option option"
  upd_dataType :: "string option"
  upd_formatting :: "string option option"
  upd_createdAt :: "nat option"

record InsertCell =
  ins_sheetId :: int
  ins_row :: int
  ins_column :: int
  ins_value :: "string option"
  ins_formula :: "string option"
  ins_dataType :: string
  ins_formatting :: "string option"

text \<open>
  The part of the storage object the cell operations touch: \<open>this.data.cells\<close> and
  \<open>this.counters.cells\<close>. Writing the JSON files (\<open>saveData\<close>) is outside the model.
\<close>

record JsonFileStorage =
  data_cells :: "Cell list"
  counters_cells :: int

datatype storage_error = CellNotFound

text \<open>\<^verbatim>\<open>updates.value\<close> and its like: \<open>undefined\<close> when the key is absent.\<close>

definition readKey :: "'a option option \<Rightarrow> 'a option" where
  "readKey k = (case k of None \<Rightarrow> None | Some v \<Rightarrow> v)"

text \<open>\<^verbatim>\<open>Array.prototype.findIndex\<close>; \<open>None\<close> stands for -1.\<close>

fun findIndex :: "('a \<Rightarrow> bool) \<Rightarrow> 'a list \<Rightarrow> nat option" where
  "findIndex P [] = None"
| "findIndex P (x # xs) = (if P x then Some 0 else map_option Suc (findIndex P xs))"

definition atPosition :: "int \<Rightarrow> int \<Rightarrow> int \<Rightarrow> Cell \<Rightarrow> bool" where
  "atPosition sid r col c = (sheetId c = sid \<and> row c = r \<and> column c = col)"

text \<open>
  \<^verbatim>\<open>
  async getCellsBySheet(sheetId) { return this.data.cells.filter(c => c.sheetId === sheetId); }
  async getCell(sheetId, row, column) {
    return this.data.cells.find(c =>
      c.sheetId === sheetId && c.row === row && c.column === column);
  }
  \<close>
\<close>

definition getCellsBySheet :: "JsonFileStorage \<Rightarrow> int \<Rightarrow> Cell list" where
  "getCellsBySheet st sid = filter (\<lambda>c. sheetId c = sid) (data_cells st)"

definition getCell :: "JsonFileStorage \<Rightarrow> int \<Rightarrow> int \<Rightarrow> int \<Rightarrow> Cell option" where
  "getCell st sid r col = find (atPosition sid r col) (data_cells st)"

text \<open>
  \<^verbatim>\<open>
  async createCell(insertCell) {
    const cell = { id: this.counters.cells++, ...insertCell,
                   createdAt: new Date(), updatedAt: new Date() };
    this.data.cells.push(cell);
    await this.saveData('cells');
    return cell;
  }
  \<close>
\<close>

definition createCell :: "nat \<Rightarrow> JsonFileStorage \<Rightarrow> InsertCell \<Rightarrow> JsonFileStorage \<times> Cell" where
  "createCell now st ins =
     (let cell = \<lparr> id' = counters_cells st, sheetId = ins_sheetId ins, row = ins_row ins,
                    column = ins_column ins, value' = ins_value ins, formula = ins_formula ins,
                    dataType = ins_dataType ins, formatting = ins_formatting ins,
                    createdAt = now, updatedAt = now, calculated_value = None \<rparr>
      in (st\<lparr> data_cells := data_cells st @ [cell], counters_cells := counters_cells st + 1 \<rparr>,
          cell))"

text \<open>The object spread \<^verbatim>\<open>{ ...cell, ...updates, updatedAt: new Date() }\<close>.\<close>

definition mergeCell :: "nat \<Rightarrow> Cell \<Rightarrow> PartialCell \<Rightarrow> Cell" where
  "mergeCell now c u =
     \<lparr> id' = (case upd_id u of None \<Rightarrow> id' c | Some v \<Rightarrow> v),
       sheetId = (case upd_sheetId u of None \<Rightarrow> sheetId c | Some v \<Rightarrow> v),
       row = (case upd_row u of None \<Rightarrow> row c | Some v \<Rightarrow> v),
       column = (case upd_column u of None \<Rightarrow> column c | Some v \<Rightarrow> v),
       value' = (case upd_value u of None \<Rightarrow> value' c | Some v \<Rightarrow> v),
       formula = (case upd_formula u of None \<Rightarrow> formula c | Some v \<Rightarrow> v),
       dataType = (case upd_dataType u of None \<Rightarrow> dataType c | Some v \<Rightarrow> v),
       formatting = (case upd_formatting u of None \<Rightarrow> formatting c | Some v \<Rightarrow> v),
       createdAt = (case upd_createdAt u of None \<Rightarrow> createdAt c | Some v \<Rightarrow> v),
       updatedAt = now,
       calculated_value = calculated_value c \<rparr>"

text \<open>
  \<^verbatim>\<open>
  async updateCell(id, updates) {
    const index = this.data.cells.findIndex(c => c.id === id);
    if (index === -1) throw new Error("Cell not found");
    this.data.cells[index] = { ...this.data.cells[index], ...updates, updatedAt: new Date() };
    await this.saveData('cells');
    return this.data.cells[index];
  }
  \<close>
\<close>

definition updateCell ::
  "nat \<Rightarrow> JsonFileStorage \<Rightarrow> int \<Rightarrow> PartialCell \<Rightarrow> storage_error + JsonFileStorage \<times> Cell" where
  "updateCell now st cid updates =
     (case findIndex (\<lambda>c. id' c = cid) (data_cells st) of
        None \<Rightarrow> Inl CellNotFound
      | Some i \<Rightarrow>
          (let cell = mergeCell now (data_cells st ! i) updates
           in Inr (st\<lparr> data_cells := (data_cells st)[i := cell] \<rparr>, cell)))"

text \<open>
  \<^verbatim>\<open>
  async updateCellByPosition(sheetId, row, column, updates) {
    const existingCell = await this.getCell(sheetId, row, column);
    if (existingCell) {
      return this.updateCell(existingCell.id, updates);
    } else {
      return this.createCell({ sheetId, row, column,
        value: updates.value, formula: updates.formula,
        dataType: updates.dataType || "text", formatting: updates.formatting });
    }
  }
  \<close>
  \<^verbatim>\<open>updates.dataType || "text"\<close> falls back on an absent and on an empty \<open>dataType\<close>.
\<close>

definition updateCellByPosition ::
  "nat \<Rightarrow> JsonFileStorage \<Rightarrow> int \<Rightarrow> int \<Rightarrow> int \<Rightarrow> PartialCell
     \<Rightarrow> storage_error + JsonFileStorage \<times> Cell" where
  "updateCellByPosition now st sid r col updates =
     (case getCell st sid r col of
        Some existingCell \<Rightarrow> updateCell now st (id' existingCell) updates
      | None \<Rightarrow>
          Inr (createCell now st
                 \<lparr> ins_sheetId = sid, ins_row = r, ins_column = col,
                   ins_value = readKey (upd_value updates),
                   ins_formula = readKey (upd_formula updates),
                   ins_dataType = (case upd_dataType updates of
                                     None \<Rightarrow> ''text''
                                   | Some d \<Rightarrow> if d = [] then ''text'' else d),
                   ins_formatting = readKey (upd_formatting updates) \<rparr>))"

text \<open>
  The sample cells of \<open>initializeSampleData\<close>, pushed in this order with ids taken from
  \<open>this.counters.cells++\<close> and the id of the sample sheet.
\<close>

definition sampleCells :: "(int \<times> int \<times> string \<times> string \<times> string option) list" where
  "sampleCells =
     [(1, 1, ''Revenue'', ''text'', None),
      (1, 2, ''50000'', ''number'', None),
      (1, 3, ''55000'', ''number'', None),
      (2, 1, ''Expenses'', ''text'', None),
      (2, 2, ''35000'', ''number'', None),
      (2, 3, ''38000'', ''number'', None),
      (3, 1, ''Profit'', ''text'', None),
      (3, 2, ''=B1-B2'', ''formula'', Some ''=B1-B2''),
      (3, 3, ''=C1-C2'', ''formula'', Some ''=C1-C2'')]"

definition pushSampleCell ::
  "nat \<Rightarrow> int \<Rightarrow> JsonFileStorage \<Rightarrow> int \<times> int \<times> string \<times> string \<times> string option
     \<Rightarrow> JsonFileStorage" where
  "pushSampleCell now sheet_id st cellData =
     (case cellData of (r, col, v, dt, f) \<Rightarrow>
        st\<lparr> data_cells := data_cells st @
               [\<lparr> id' = counters_cells st, sheetId = sheet_id, row = r, column = col,
                  value' = Some v, formula = f, dataType = dt, formatting = Some ''{}'',
                  createdAt = now, updatedAt = now, calculated_value = None \<rparr>],
            counters_cells := counters_cells st + 1 \<rparr>)"

definition initializeSampleData :: "nat \<Rightarrow> int \<Rightarrow> JsonFileStorage \<Rightarrow> JsonFileStorage" where
  "initializeSampleData now sheet_id st = foldl (pushSampleCell now sheet_id) st sampleCells"

text \<open>The storage of a first start: no files, every counter at 1, the sample sheet has id 1.\<close>

definition freshStorage :: JsonFileStorage where
  "freshStorage = \<lparr> data_cells = [], counters_cells = 1 \<rparr>"

section \<open>The grid's handlers (client/src/pages/spreadsheet.tsx, ResizableGrid.tsx)\<close>

definition startsWithEq :: "string \<Rightarrow> bool" where
  "startsWithEq v = (case v of [] \<Rightarrow> False | c # cs \<Rightarrow> c = CHR ''='')"

text \<open>
  \<^verbatim>\<open>
  let processedValue = value; let dataType = 'text'; let processedFormula = formula;
  if (value.startsWith('=')) {
    dataType = 'formula'; processedFormula = value; processedValue = value;
  } else if (!isNaN(Number(value)) && value !== '') {
    dataType = 'number';
  }
  ... body: JSON.stringify({ value: processedValue, formula: processedFormula, dataType })
  \<close>
  \<open>numeric value\<close> stands for \<^verbatim>\<open>!isNaN(Number(value))\<close>. \<open>JSON.stringify\<close> drops a
  \<open>formula\<close> that is \<open>undefined\<close>, so the key is absent from the body.
\<close>

definition requestBody :: "(string \<Rightarrow> bool) \<Rightarrow> string \<Rightarrow> string option \<Rightarrow> PartialCell" where
  "requestBody numeric v f =
     \<lparr> upd_id = None, upd_sheetId = None, upd_row = None, upd_column = None,
       upd_value = Some (Some v),
       upd_formula = (if startsWithEq v then Some (Some v) else map_option Some f),
       upd_dataType = Some (if startsWithEq v then ''formula''
                            else if numeric v \<and> v \<noteq> [] then ''number'' else ''text''),
       upd_formatting = None, upd_createdAt = None \<rparr>"

text \<open>
  \<open>handleCellUpdate\<close> of spreadsheet.tsx, as far as the store goes: nothing without an
  active sheet (\<^verbatim>\<open>if (!activeSheet) return\<close>, which also holds for the sheet id 0);
  otherwise the PUT route hands the body to \<open>updateCellByPosition\<close> (for an authenticated
  request; the activity log it then writes is outside the model), and a failure there
  (status 400, the failure toast) leaves the store as it was.
\<close>

definition handleCellUpdate ::
  "(string \<Rightarrow> bool) \<Rightarrow> nat \<Rightarrow> JsonFileStorage \<Rightarrow> int option \<Rightarrow> int \<Rightarrow> int \<Rightarrow> string
     \<Rightarrow> string option \<Rightarrow> JsonFileStorage" where
  "handleCellUpdate numeric now st activeSheet r col v f =
     (case activeSheet of
        None \<Rightarrow> st
      | Some sid \<Rightarrow>
          if sid = 0 then st
          else (case updateCellByPosition now st sid r col (requestBody numeric v f) of
                  Inl e \<Rightarrow> st
                | Inr (st', cell) \<Rightarrow> st'))"

text \<open>
  \<^verbatim>\<open>
  const getCellValue = (row, column) => {
    const cell = cells?.find(c => c.row === row && c.column === column);
    if (!cell) return "";
    // Use calculated_value for formulas, otherwise use value
    if (cell.dataType === 'formula' && 'calculated_value' in cell) {
      return String(cell.calculated_value);
    }
    return cell.value || "";
  };
  \<close>
  \<open>cells\<close> is the answer of \<open>/api/sheets/:id/cells\<close> (\<open>getCellsBySheet\<close>), or \<open>undefined\<close>
  while it loads.
\<close>

definition getCellValue :: "Cell list option \<Rightarrow> int \<Rightarrow> int \<Rightarrow> string" where
  "getCellValue cells r col =
     (case (case cells of None \<Rightarrow> None
            | Some cs \<Rightarrow> find (\<lambda>c. row c = r \<and> column c = col) cs) of
        None \<Rightarrow> []
      | Some cell \<Rightarrow>
          (case calculated_value cell of
             Some cv \<Rightarrow> if dataType cell = ''formula'' then cv
                        else (case value' cell of None \<Rightarrow> [] | Some v \<Rightarrow> v)
           | None \<Rightarrow> (case value' cell of None \<Rightarrow> [] | Some v \<Rightarrow> v)))"

text \<open>
  The two states a cell can be in: it has no formula and holds a literal text or number,
  or it has a formula, which the grid also stores as the value
  (\<^verbatim>\<open>processedValue = value; // Keep the formula as value for now\<close>).
\<close>

definition isLiteralCell :: "Cell \<Rightarrow> bool" where
  "isLiteralCell c =
     (formula c = None
      \<and> (dataType c = ''text'' \<or> dataType c = ''number'')
      \<and> (case value' c of None \<Rightarrow> False | Some v \<Rightarrow> \<not> startsWithEq v))"

definition isFormulaCell :: "Cell \<Rightarrow> bool" where
  "isFormulaCell c =
     (dataType c = ''formula''
      \<and> (case formula c of None \<Rightarrow> False | Some f \<Rightarrow> startsWithEq f \<and> value' c = Some f))"

text \<open>A cell in one of the two states, with no calculated value cached on it.\<close>

definition cellStateOk :: "Cell \<Rightarrow> bool" where
  "cellStateOk c = ((isLiteralCell c \<or> isFormulaCell c) \<and> calculated_value c = None)"

text \<open>
  The position of a cell, and a store with at most one cell per position.
\<close>

definition position :: "Cell \<Rightarrow> int \<times> int \<times> int" where
  "position c = (sheetId c, row c, column c)"

definition uniquePositions :: "Cell list \<Rightarrow> bool" where
  "uniquePositions cells = distinct (map position cells)"

text \<open>
  Updates that carry no \<open>sheetId\<close>, \<open>row\<close> or \<open>column\<close>, and updates that carry no \<open>id\<close>
  either (the grid's body carries \<open>value\<close>, \<open>formula\<close> and \<open>dataType\<close>).
\<close>

definition keepsPosition :: "PartialCell \<Rightarrow> bool" where
  "keepsPosition u = (upd_sheetId u = None \<and> upd_row u = None \<and> upd_column u = None)"

definition keepsIdentity :: "PartialCell \<Rightarrow> bool" where
  "keepsIdentity u = (upd_id u = None \<and> keepsPosition u)"

text \<open>
  The ids of a store whose cells all took their id from \<^verbatim>\<open>this.counters.cells++\<close>: they
  are distinct and below the counter.
\<close>

definition idsFresh :: "JsonFileStorage \<Rightarrow> bool" where
  "idsFresh st =
     (distinct (map id' (data_cells st)) \<and> (\<forall>c\<in>set (data_cells st). id' c < counters_cells st))"

text \<open>
  The stores that any number of calls of \<open>updateCellByPosition\<close> lead to from a store, the
  updates of every call being of the kind \<open>allowed\<close>.
\<close>

inductive writtenFrom :: "(PartialCell \<Rightarrow> bool) \<Rightarrow> JsonFileStorage \<Rightarrow> JsonFileStorage \<Rightarrow> bool"
  for allowed :: "PartialCell \<Rightarrow> bool" and st :: JsonFileStorage where
  writtenFrom_start: "writtenFrom allowed st st"
| writtenFrom_write:
    "writtenFrom allowed st st1 \<Longrightarrow> allowed updates
     \<Longrightarrow> updateCellByPosition now st1 sid r col updates = Inr (st2, cell)
     \<Longrightarrow> writtenFrom allowed st st2"

text \<open>
  The writes of the grid after which a cell is in one of the two states: a formula (the
  input starts with \<open>=\<close>), or a literal that comes without a formula argument and is put on
  a position that holds no formula. (The body of a literal has no \<open>formula\<close> key, so the
  formula of the cell it overwrites stays; and a formula argument is stored with the
  literal.)
\<close>

definition settledWrite ::
  "JsonFileStorage \<Rightarrow> int option \<Rightarrow> int \<Rightarrow> int \<Rightarrow> string \<Rightarrow> string option \<Rightarrow> bool" where
  "settledWrite st activeSheet r col v f =
     (startsWithEq v
      \<or> (f = None
          \<and> (case activeSheet of
                None \<Rightarrow> True
              | Some sid \<Rightarrow>
                  (case getCell st sid r col of None \<Rightarrow> True | Some c \<Rightarrow> formula c = None))))"

text \<open>
  The store states that the sample data and such writes through \<open>handleCellUpdate\<close> reach
  from a first start. (The other handlers of the client, in ResizableGrid.tsx and
  spreadsheet-new.tsx, post to \<^verbatim>\<open>/api/sheets/:id/cells\<close>, for which the routes in the
  sources have no handler; the WebSocket handler writes no cell.)
\<close>

inductive reachable :: "(string \<Rightarrow> bool) \<Rightarrow> JsonFileStorage \<Rightarrow> bool"
  for numeric :: "string \<Rightarrow> bool" where
  reachable_init: "reachable numeric (initializeSampleData now 1 freshStorage)"
| reachable_write:
    "reachable numeric st \<Longrightarrow> settledWrite st activeSheet r col v f
     \<Longrightarrow> reachable numeric (handleCellUpdate numeric now st activeSheet r col v f)"

subsection \<open>Concrete cells, updates and stores for the examples\<close>


definition noUpdates :: PartialCell where
  "noUpdates =
     \<lparr> upd_id = None, upd_sheetId = None, upd_row = None, upd_column = None,
       upd_value = None, upd_formula = None, upd_dataType = None,
       upd_formatting = None, upd_createdAt = None \<rparr>"


text \<open>The store of a first start: the sample data on sheet 1, written at time 0.\<close>

definition sampleStore :: JsonFileStorage where
  "sampleStore = initializeSampleData 0 1 freshStorage"



text \<open>
  The cell that \<open>updateCellByPosition\<close> creates at a position without a cell (the object
  literal it hands to \<open>createCell\<close>, with the id and the dates \<open>createCell\<close> adds).
\<close>

definition createdCell :: "nat \<Rightarrow> JsonFileStorage \<Rightarrow> int \<Rightarrow> int \<Rightarrow> int \<Rightarrow> PartialCell \<Rightarrow> Cell" where
  "createdCell now st sid r col updates =
     \<lparr> id' = counters_cells st, sheetId = sid, row = r, column = col,
       value' = readKey (upd_value updates), formula = readKey (upd_formula updates),
       dataType = (case upd_dataType updates of
                     None \<Rightarrow> ''text''
                   | Some d \<Rightarrow> if d = [] then ''text'' else d),
       formatting = readKey (upd_formatting updates),
       createdAt = now, updatedAt = now, calculated_value = None \<rparr>"

section \<open>The formula engine: values, tokens and the tokenizer\<close>

text \<open>
  Modelled from the spec: the formula engine (tokenizer, parser, reference resolver,
  function library, evaluator; \<open>server/formula-engine.ts\<close> and
  \<open>client/src/lib/formula-engine.ts\<close>) is not among the sources, so this section and the
  next two follow sections 3, 4.1 to 4.5, 6 and 7 of the specification. Where the
  specification leaves a choice open the text says which one is taken.
\<close>

text \<open>
  Modelled from the spec: the error taxonomy of sections 4.5 and 7. \<open>PropagatedError\<close>
  carries the kind of the upstream error.
\<close>

datatype evaluationError =
    SyntaxError
  | DivisionByZero
  | TypeMismatch
  | UnknownFunctionError
  | ArgumentError
  | LookupNotFound
  | CircularReference
  | PropagatedError evaluationError

text \<open>
  Modelled from the spec: the typed values \<open>Number | String | Boolean\<close> of section 4.5, and
  the empty value an unset cell resolves to (section 4.3). The specification fixes no
  number representation; numbers are real numbers here, so the rounding of a floating-point
  implementation is outside the model.
\<close>

datatype cellValue = Number real | String string | Boolean bool | Empty

text \<open>Modelled from the spec: the operators of section 4.1.\<close>

datatype operator =
    OpAdd | OpSub | OpMul | OpDiv | OpPow
  | OpEq | OpNe | OpLe | OpGe | OpLt | OpGt
  | OpConcat

text \<open>
  Modelled from the spec: the token kinds of section 4.1. A cell reference holds its column
  and row, a range reference the column and row of its two corners.
\<close>

datatype token =
    NUMBER real
  | STRING string
  | CELL_REF nat nat
  | RANGE_REF nat nat nat nat
  | IDENT string
  | OPERATOR operator
  | COMMA
  | LPAREN
  | RPAREN

definition isDigit :: "char \<Rightarrow> bool" where
  "isDigit c = (48 \<le> (of_char c :: nat) \<and> (of_char c :: nat) \<le> 57)"

definition isLetter :: "char \<Rightarrow> bool" where
  "isLetter c = ((65 \<le> (of_char c :: nat) \<and> (of_char c :: nat) \<le> 90)
                 \<or> (97 \<le> (of_char c :: nat) \<and> (of_char c :: nat) \<le> 122))"

definition isWordChar :: "char \<Rightarrow> bool" where
  "isWordChar c = (isLetter c \<or> isDigit c \<or> c = CHR ''_'')"

definition isSpace :: "char \<Rightarrow> bool" where
  "isSpace c = (of_char c = (32::nat) \<or> of_char c = (9::nat)
                \<or> of_char c = (10::nat) \<or> of_char c = (13::nat))"

text \<open>Cell references and function names are normalised to upper case.\<close>

definition toUpper :: "char \<Rightarrow> char" where
  "toUpper c = (if 97 \<le> (of_char c :: nat) \<and> (of_char c :: nat) \<le> 122
                then char_of ((of_char c :: nat) - 32) else c)"

definition digitsValue :: "string \<Rightarrow> nat" where
  "digitsValue ds = foldl (\<lambda>acc d. 10 * acc + ((of_char d :: nat) - 48)) 0 ds"

text \<open>Column letters as a column number: base 26 with \<open>A\<close> = 1 (section 3).\<close>

definition columnOfLetters :: "string \<Rightarrow> nat" where
  "columnOfLetters ls = foldl (\<lambda>acc l. 26 * acc + ((of_char (toUpper l) :: nat) - 64)) 0 ls"

text \<open>
  A number token: decimal digits, an optional fraction, an optional exponent (\<open>e\<close> or \<open>E\<close>, an
  optional sign, digits). The result is the value and the text after the number.
\<close>

definition lexExponent :: "string \<Rightarrow> int \<times> string" where
  "lexExponent s =
     (case s of
        [] \<Rightarrow> (0, s)
      | e # t \<Rightarrow>
          if e = CHR ''e'' \<or> e = CHR ''E'' then
            (case t of
               [] \<Rightarrow> (0, s)
             | d # t' \<Rightarrow>
                 if isDigit d then (int (digitsValue (takeWhile isDigit t)), dropWhile isDigit t)
                 else if (d = CHR ''+'' \<or> d = CHR ''-'') \<and> takeWhile isDigit t' \<noteq> [] then
                   ((if d = CHR ''-'' then - int (digitsValue (takeWhile isDigit t'))
                     else int (digitsValue (takeWhile isDigit t'))),
                    dropWhile isDigit t')
                 else (0, s))
          else (0, s))"

definition lexNumber :: "string \<Rightarrow> real \<times> string" where
  "lexNumber s =
     (let whole = takeWhile isDigit s;
          afterWhole = dropWhile isDigit s;
          fraction = (case afterWhole of
                        [] \<Rightarrow> []
                      | p # t \<Rightarrow> if p = CHR ''.'' then takeWhile isDigit t else []);
          afterFraction = (case afterWhole of
                             [] \<Rightarrow> []
                           | p # t \<Rightarrow> if p = CHR ''.'' then dropWhile isDigit t else afterWhole);
          exponent = lexExponent afterFraction
      in ((real (digitsValue whole) + real (digitsValue fraction) / 10 ^ length fraction)
            * power_int 10 (fst exponent),
          snd exponent))"

text \<open>
  A string token after its opening quote: up to the closing quote, a doubled quote standing
  for one quote; \<open>None\<close> when the literal is not terminated.
\<close>

fun lexString :: "string \<Rightarrow> (string \<times> string) option" where
  "lexString [] = None"
| "lexString [c] = (if c = CHR 0x22 then Some ([], []) else None)"
| "lexString (c # d # t) =
     (if c = CHR 0x22 then
        (if d = CHR 0x22
         then map_option (\<lambda>(s, rest). (c # s, rest)) (lexString t)
         else Some ([], d # t))
      else map_option (\<lambda>(s, rest). (c # s, rest)) (lexString (d # t)))"

text \<open>A word \<open>[A-Za-z]+[0-9]+\<close> as a cell reference: its column and row.\<close>

definition cellOfWord :: "string \<Rightarrow> (nat \<times> nat) option" where
  "cellOfWord w =
     (let letters = takeWhile isLetter w; digits = dropWhile isLetter w
      in if letters \<noteq> [] \<and> digits \<noteq> [] \<and> list_all isDigit digits
         then Some (columnOfLetters letters, digitsValue digits) else None)"

definition lexOperator :: "string \<Rightarrow> (token \<times> string) option" where
  "lexOperator s =
     (case s of
        [] \<Rightarrow> None
      | c # t \<Rightarrow>
          if c = CHR ''<'' then
            (case t of
               [] \<Rightarrow> Some (OPERATOR OpLt, t)
             | d # t' \<Rightarrow> if d = CHR ''>'' then Some (OPERATOR OpNe, t')
                         else if d = CHR ''='' then Some (OPERATOR OpLe, t')
                         else Some (OPERATOR OpLt, t))
          else if c = CHR ''>'' then
            (case t of
               [] \<Rightarrow> Some (OPERATOR OpGt, t)
             | d # t' \<Rightarrow> if d = CHR ''='' then Some (OPERATOR OpGe, t')
                         else Some (OPERATOR OpGt, t))
          else if c = CHR ''+'' then Some (OPERATOR OpAdd, t)
          else if c = CHR ''-'' then Some (OPERATOR OpSub, t)
          else if c = CHR ''*'' then Some (OPERATOR OpMul, t)
          else if c = CHR ''/'' then Some (OPERATOR OpDiv, t)
          else if c = CHR ''^'' then Some (OPERATOR OpPow, t)
          else if c = CHR ''='' then Some (OPERATOR OpEq, t)
          else if c = CHR ''&'' then Some (OPERATOR OpConcat, t)
          else if c = CHR '','' then Some (COMMA, t)
          else if c = CHR ''('' then Some (LPAREN, t)
          else if c = CHR '')'' then Some (RPAREN, t)
          else None)"

text \<open>
  One token from the start of a text that does not start with white space: the token and
  the text after it, or \<open>None\<close> (a syntax error). A word followed by \<open>(\<close> is a function name;
  otherwise it must be a cell reference, and with \<open>:\<close> and a second cell reference a range.
\<close>

definition lexToken :: "string \<Rightarrow> (token \<times> string) option" where
  "lexToken s =
     (case s of
        [] \<Rightarrow> None
      | c # t \<Rightarrow>
          if isDigit c then Some (NUMBER (fst (lexNumber s)), snd (lexNumber s))
          else if c = CHR 0x22 then map_option (\<lambda>(str, rest). (STRING str, rest)) (lexString t)
          else if isLetter c \<or> c = CHR ''_'' then
            (let w = takeWhile isWordChar s; rest = dropWhile isWordChar s
             in case rest of
                  [] \<Rightarrow> map_option (\<lambda>(col, r). (CELL_REF col r, rest)) (cellOfWord w)
                | p # rest' \<Rightarrow>
                    if p = CHR ''('' then Some (IDENT (map toUpper w), rest)
                    else if p = CHR '':'' then
                      (case (cellOfWord w, cellOfWord (takeWhile isWordChar rest')) of
                         (Some (c1, r1), Some (c2, r2)) \<Rightarrow>
                           Some (RANGE_REF c1 r1 c2 r2, dropWhile isWordChar rest')
                       | _ \<Rightarrow> None)
                    else map_option (\<lambda>(col, r). (CELL_REF col r, rest)) (cellOfWord w))
          else lexOperator s)"

text \<open>
  Modelled from the spec: the tokenizer of section 4.1. White space is skipped; a character
  that starts no token and a string without its closing quote are syntax errors. The test
  on the lengths always succeeds (a token is never empty); it makes the recursion evidently
  terminating.
\<close>

function tokenize :: "string \<Rightarrow> evaluationError + token list" where
  "tokenize s =
     (case s of
        [] \<Rightarrow> Inr []
      | c # t \<Rightarrow>
          if isSpace c then tokenize t
          else (case lexToken s of
                  None \<Rightarrow> Inl SyntaxError
                | Some (tok, rest) \<Rightarrow>
                    if length rest < length s then
                      (case tokenize rest of
                         Inl e \<Rightarrow> Inl e
                       | Inr toks \<Rightarrow> Inr (tok # toks))
                    else Inl SyntaxError))"
  by pat_completeness auto
termination
  by (relation "measure length") auto

declare tokenize.simps [simp del]

section \<open>The formula engine: the parser\<close>

text \<open>
  Modelled from the spec: the expression nodes of section 3. A cell reference holds its
  column and row, a range reference the column and row of its two corners.
\<close>

datatype expr =
    Literal cellValue
  | CellRef nat nat
  | RangeRef nat nat nat nat
  | BinaryOp operator expr expr
  | UnaryOp operator expr
  | FunctionCall string "expr list"

text \<open>
  The left-associative binary levels of the grammar of section 4.2, the tightest first:
  0 for \<open>*\<close> and \<open>/\<close>, 1 for \<open>+\<close> and \<open>-\<close>, 2 for \<open>&\<close>, 3 for the comparisons. The exponent
  \<open>^\<close> is right-associative and has a parser of its own.
\<close>

definition binaryLevel :: "operator \<Rightarrow> nat option" where
  "binaryLevel op =
     (case op of
        OpMul \<Rightarrow> Some 0 | OpDiv \<Rightarrow> Some 0
      | OpAdd \<Rightarrow> Some 1 | OpSub \<Rightarrow> Some 1
      | OpConcat \<Rightarrow> Some 2
      | OpPow \<Rightarrow> None
      | _ \<Rightarrow> Some 3)"

definition topLevel :: nat where
  "topLevel = 3"

text \<open>
  Modelled from the spec: the recursive-descent parser of section 4.2. Each parser takes
  the tokens and returns the expression it read and the tokens after it, or a syntax error.
  \<open>parsePrimary\<close>: number, string, cell reference, range reference, parenthesised
  expression, function call. \<open>parseUnary\<close>: unary \<open>-\<close> and \<open>+\<close>, which bind tighter than
  \<open>^\<close>. \<open>parsePower\<close>: \<open>^\<close>, right-associative. \<open>parseLevel n\<close>: the left-associative
  operators of level \<open>n\<close>, over the operands \<open>parseOperand n\<close> of the next tighter level.
  \<open>parseArguments\<close>: the comma-separated arguments of a call up to its closing
  parenthesis. The tests on the lengths always succeed (a parser never returns more tokens
  than it was given); they make the recursion evidently terminating.
\<close>

function parsePrimary :: "token list \<Rightarrow> evaluationError + expr \<times> token list"
  and parseUnary :: "token list \<Rightarrow> evaluationError + expr \<times> token list"
  and parsePower :: "token list \<Rightarrow> evaluationError + expr \<times> token list"
  and parseOperand :: "nat \<Rightarrow> token list \<Rightarrow> evaluationError + expr \<times> token list"
  and parseLevelRest :: "nat \<Rightarrow> expr \<Rightarrow> token list \<Rightarrow> evaluationError + expr \<times> token list"
  and parseLevel :: "nat \<Rightarrow> token list \<Rightarrow> evaluationError + expr \<times> token list"
  and parseArguments :: "token list \<Rightarrow> evaluationError + expr list \<times> token list"
where
  "parsePrimary ts =
     (case ts of
        [] \<Rightarrow> Inl SyntaxError
      | tok # rest \<Rightarrow>
          (case tok of
             NUMBER x \<Rightarrow> Inr (Literal (Number x), rest)
           | STRING s \<Rightarrow> Inr (Literal (String s), rest)
           | CELL_REF col r \<Rightarrow> Inr (CellRef col r, rest)
           | RANGE_REF c1 r1 c2 r2 \<Rightarrow> Inr (RangeRef c1 r1 c2 r2, rest)
           | LPAREN \<Rightarrow>
               (case parseLevel topLevel rest of
                  Inl e \<Rightarrow> Inl e
                | Inr (inner, rest') \<Rightarrow>
                    (case rest' of
                       [] \<Rightarrow> Inl SyntaxError
                     | tok' # rest'' \<Rightarrow>
                         if tok' = RPAREN then Inr (inner, rest'') else Inl SyntaxError))
           | IDENT name \<Rightarrow>
               (case rest of
                  [] \<Rightarrow> Inl SyntaxError
                | tok' # rest' \<Rightarrow>
                    if tok' = LPAREN then
                      (case rest' of
                         [] \<Rightarrow> Inl SyntaxError
                       | tok'' # rest'' \<Rightarrow>
                           if tok'' = RPAREN then Inr (FunctionCall name [], rest'')
                           else (case parseArguments rest' of
                                   Inl e \<Rightarrow> Inl e
                                 | Inr (args, rest3) \<Rightarrow> Inr (FunctionCall name args, rest3)))
                    else Inl SyntaxError)
           | _ \<Rightarrow> Inl SyntaxError))"
| "parseUnary ts =
     (case ts of
        [] \<Rightarrow> Inl SyntaxError
      | tok # rest \<Rightarrow>
          if tok = OPERATOR OpSub \<or> tok = OPERATOR OpAdd then
            (case parseUnary rest of
               Inl e \<Rightarrow> Inl e
             | Inr (operand, rest') \<Rightarrow>
                 Inr (UnaryOp (if tok = OPERATOR OpSub then OpSub else OpAdd) operand, rest'))
          else parsePrimary ts)"
| "parsePower ts =
     (case parseUnary ts of
        Inl e \<Rightarrow> Inl e
      | Inr (base, rest) \<Rightarrow>
          (case rest of
             [] \<Rightarrow> Inr (base, rest)
           | tok # rest' \<Rightarrow>
               if tok = OPERATOR OpPow then
                 (if length rest' < length ts then
                    (case parsePower rest' of
                       Inl e \<Rightarrow> Inl e
                     | Inr (exponent, rest'') \<Rightarrow> Inr (BinaryOp OpPow base exponent, rest''))
                  else Inl SyntaxError)
               else Inr (base, rest)))"
| "parseOperand n ts = (case n of 0 \<Rightarrow> parsePower ts | Suc m \<Rightarrow> parseLevel m ts)"
| "parseLevelRest n lhs ts =
     (case ts of
        [] \<Rightarrow> Inr (lhs, ts)
      | tok # rest \<Rightarrow>
          (case tok of
             OPERATOR op \<Rightarrow>
               if binaryLevel op = Some n then
                 (case parseOperand n rest of
                    Inl e \<Rightarrow> Inl e
                  | Inr (rhs, rest') \<Rightarrow>
                      if length rest' \<le> length rest
                      then parseLevelRest n (BinaryOp op lhs rhs) rest'
                      else Inl SyntaxError)
               else Inr (lhs, ts)
           | _ \<Rightarrow> Inr (lhs, ts)))"
| "parseLevel n ts =
     (case parseOperand n ts of
        Inl e \<Rightarrow> Inl e
      | Inr (lhs, rest) \<Rightarrow>
          if length rest \<le> length ts then parseLevelRest n lhs rest else Inl SyntaxError)"
| "parseArguments ts =
     (case parseLevel topLevel ts of
        Inl e \<Rightarrow> Inl e
      | Inr (arg, rest) \<Rightarrow>
          (case rest of
             [] \<Rightarrow> Inl SyntaxError
           | tok # rest' \<Rightarrow>
               if tok = RPAREN then Inr ([arg], rest')
               else if tok = COMMA \<and> length rest' < length ts then
                 (case parseArguments rest' of
                    Inl e \<Rightarrow> Inl e
                  | Inr (args, rest'') \<Rightarrow> Inr (arg # args, rest''))
               else Inl SyntaxError))"
  by pat_completeness auto
termination
  by (relation "inv_image (less_than <*lex*> less_than)
        (\<lambda>x. case x of
           Inl (Inl ts) \<Rightarrow> (length ts, 0)
         | Inl (Inr (Inl ts)) \<Rightarrow> (length ts, 1)
         | Inl (Inr (Inr ts)) \<Rightarrow> (length ts, 2)
         | Inr (Inl (Inl (n, ts))) \<Rightarrow> (length ts, 3 * n + 3)
         | Inr (Inl (Inr (n, lhs, ts))) \<Rightarrow> (length ts, 3 * n + 4)
         | Inr (Inr (Inl (n, ts))) \<Rightarrow> (length ts, 3 * n + 5)
         | Inr (Inr (Inr ts)) \<Rightarrow> (length ts, 3 * topLevel + 6))")
    (auto simp: topLevel_def)

declare parsePrimary.simps [simp del] parseUnary.simps [simp del] parsePower.simps [simp del]
  parseOperand.simps [simp del] parseLevelRest.simps [simp del] parseLevel.simps [simp del]
  parseArguments.simps [simp del]

text \<open>
  The whole formula is one expression; tokens left over are a syntax error.
\<close>

definition parseFormula :: "token list \<Rightarrow> evaluationError + expr" where
  "parseFormula ts =
     (case parseLevel topLevel ts of
        Inl e \<Rightarrow> Inl e
      | Inr (e, rest) \<Rightarrow> if rest = [] then Inr e else Inl SyntaxError)"

section \<open>The formula engine: resolver, function library and evaluator\<close>

text \<open>
  Modelled from the spec: a cell as \<open>CellStore.getCell\<close> returns it (sections 3 and 6): the
  raw input, the formula text of a formula cell, the data type, and the cached calculated
  value or the error of a formula cell.
\<close>

datatype cellKind = TextCell | NumberCell | FormulaCell

record storedCell =
  cs_value :: string
  cs_formula :: "string option"
  cs_dataType :: cellKind
  cs_calculatedValue :: "cellValue option"
  cs_error :: "evaluationError option"

text \<open>
  Modelled from the spec: the \<open>CellStore\<close> interface of section 6, a map from
  (sheetId, row, column) to the cell there; an unset position has none.
\<close>

type_synonym cellStore = "nat \<times> nat \<times> nat \<Rightarrow> storedCell option"

text \<open>
  Modelled from the spec: \<open>CellStore.setCalculatedValue\<close> (section 6) puts a value or an
  error on the cell and clears the other. A call for a position without a cell is a
  contract violation; the model leaves the store as it is.
\<close>

definition setCalculatedValue ::
  "cellStore \<Rightarrow> nat \<times> nat \<times> nat \<Rightarrow> evaluationError + cellValue \<Rightarrow> cellStore" where
  "setCalculatedValue store p res =
     (case store p of
        None \<Rightarrow> store
      | Some c \<Rightarrow>
          (case res of
             Inl e \<Rightarrow> store(p \<mapsto> c\<lparr> cs_calculatedValue := None, cs_error := Some e \<rparr>)
           | Inr v \<Rightarrow> store(p \<mapsto> c\<lparr> cs_calculatedValue := Some v, cs_error := None \<rparr>)))"

text \<open>
  A literal that reads as a number (an optional \<open>-\<close>, then a number token and nothing
  else) is a number; any other literal is a string.
\<close>

definition parseNumber :: "string \<Rightarrow> real option" where
  "parseNumber s =
     (case s of
        [] \<Rightarrow> None
      | c # t \<Rightarrow>
          if isDigit c then (if snd (lexNumber s) = [] then Some (fst (lexNumber s)) else None)
          else if c = CHR ''-'' then
            (case t of
               [] \<Rightarrow> None
             | d # t' \<Rightarrow> if isDigit d \<and> snd (lexNumber t) = [] then Some (- fst (lexNumber t))
                         else None)
          else None)"

definition coerceLiteral :: "string \<Rightarrow> cellValue" where
  "coerceLiteral s = (case parseNumber s of Some x \<Rightarrow> Number x | None \<Rightarrow> String s)"

text \<open>
  What a dependent reads from a cell in error: the error wrapped as \<open>PropagatedError\<close>, and a
  propagated error as it is (sections 4.3 and 7).
\<close>

definition propagate :: "evaluationError \<Rightarrow> evaluationError" where
  "propagate e = (case e of PropagatedError k \<Rightarrow> PropagatedError k | _ \<Rightarrow> PropagatedError e)"

text \<open>
  Modelled from the spec: the reference resolver of section 4.3 for one cell. An unset cell is
  the empty value; a cell in error gives that error, propagated; a formula cell gives its
  calculated value (the empty value while it has none); any other cell its literal.
\<close>

definition resolveCell :: "cellStore \<Rightarrow> nat \<times> nat \<times> nat \<Rightarrow> evaluationError + cellValue" where
  "resolveCell store p =
     (case store p of
        None \<Rightarrow> Inr Empty
      | Some c \<Rightarrow>
          (case cs_error c of
             Some e \<Rightarrow> Inl (propagate e)
           | None \<Rightarrow>
               if cs_dataType c = FormulaCell
               then (case cs_calculatedValue c of None \<Rightarrow> Inr Empty | Some v \<Rightarrow> Inr v)
               else Inr (coerceLiteral (cs_value c))))"

text \<open>
  The first error of a list of results, or all their values.
\<close>

fun collect :: "(evaluationError + 'a) list \<Rightarrow> evaluationError + 'a list" where
  "collect [] = Inr []"
| "collect (Inl e # rs) = Inl e"
| "collect (Inr v # rs) = (case collect rs of Inl e \<Rightarrow> Inl e | Inr vs \<Rightarrow> Inr (v # vs))"

text \<open>
  Modelled from the spec: a range is the list of its cells, row-major (section 4.3): left
  to right within a row, then top to bottom. The corners are taken as written. An error in
  a cell of the range is the value of the range.
\<close>

definition rangeCells :: "nat \<Rightarrow> nat \<Rightarrow> nat \<Rightarrow> nat \<Rightarrow> nat \<Rightarrow> (nat \<times> nat \<times> nat) list" where
  "rangeCells sid c1 r1 c2 r2 =
     concat (map (\<lambda>r. map (\<lambda>col. (sid, r, col)) [c1..<Suc c2]) [r1..<Suc r2])"

definition resolveRange ::
  "cellStore \<Rightarrow> nat \<Rightarrow> nat \<Rightarrow> nat \<Rightarrow> nat \<Rightarrow> nat \<Rightarrow> evaluationError + cellValue list" where
  "resolveRange store sid c1 r1 c2 r2 = collect (map (resolveCell store) (rangeCells sid c1 r1 c2 r2))"

text \<open>
  The part of the function library the specification does not spell out, taken as a
  parameter: how a number is written as text (for \<open>&\<close>), and the functions other than
  \<open>IF\<close> and the five aggregates (\<open>VLOOKUP\<close>, \<open>CONCATENATE\<close> and the string, date and
  logic helpers of section 4.4), each from the value lists of its arguments; \<open>None\<close> for a
  name the library does not know.
\<close>

record library =
  formatNumber :: "real \<Rightarrow> string"
  helper :: "string \<Rightarrow> (cellValue list list \<Rightarrow> evaluationError + cellValue) option"

text \<open>
  Numeric coercion (section 4.5): a Boolean is 1 or 0, the empty value is 0, a string must
  read as a number.
\<close>

definition toNumber :: "cellValue \<Rightarrow> evaluationError + real" where
  "toNumber v =
     (case v of
        Number x \<Rightarrow> Inr x
      | Boolean b \<Rightarrow> Inr (if b then 1 else 0)
      | Empty \<Rightarrow> Inr 0
      | String s \<Rightarrow> (case parseNumber s of Some x \<Rightarrow> Inr x | None \<Rightarrow> Inl TypeMismatch))"

definition toText :: "library \<Rightarrow> cellValue \<Rightarrow> string" where
  "toText lib v =
     (case v of
        String s \<Rightarrow> s
      | Empty \<Rightarrow> []
      | Number x \<Rightarrow> formatNumber lib x
      | Boolean b \<Rightarrow> if b then ''TRUE'' else ''FALSE'')"

text \<open>Strings are ordered by their character codes, the first difference deciding.\<close>

fun stringLess :: "string \<Rightarrow> string \<Rightarrow> bool" where
  "stringLess [] [] = False"
| "stringLess [] (d # t) = True"
| "stringLess (c # s) [] = False"
| "stringLess (c # s) (d # t) =
     ((of_char c :: nat) < of_char d \<or> ((of_char c :: nat) = of_char d \<and> stringLess s t))"

text \<open>
  The exponent. The specification names no error for \<open>^\<close>; where the power has no value
  among the real numbers the model takes \<open>DivisionByZero\<close> for zero to a negative exponent
  (a division by zero) and \<open>TypeMismatch\<close> for a negative base with an exponent that is not
  whole. Otherwise the result is the repeated product (or its inverse) for a whole
  exponent, with \<open>x^0 = 1\<close>, and the real power for any other exponent.
\<close>

definition powerOf :: "real \<Rightarrow> real \<Rightarrow> evaluationError + real" where
  "powerOf x y =
     (if x = 0 \<and> y < 0 then Inl DivisionByZero
      else if y = of_int \<lfloor>y\<rfloor> then Inr (power_int x \<lfloor>y\<rfloor>)
      else if x < 0 then Inl TypeMismatch
      else Inr (x powr y))"

definition arithmetic :: "operator \<Rightarrow> real \<Rightarrow> real \<Rightarrow> evaluationError + cellValue" where
  "arithmetic op x y =
     (case op of
        OpAdd \<Rightarrow> Inr (Number (x + y))
      | OpSub \<Rightarrow> Inr (Number (x - y))
      | OpMul \<Rightarrow> Inr (Number (x * y))
      | OpDiv \<Rightarrow> if y = 0 then Inl DivisionByZero else Inr (Number (x / y))
      | OpPow \<Rightarrow> (case powerOf x y of Inl e \<Rightarrow> Inl e | Inr z \<Rightarrow> Inr (Number z))
      | _ \<Rightarrow> Inl TypeMismatch)"

definition isNumber :: "cellValue \<Rightarrow> bool" where
  "isNumber v = (case v of Number x \<Rightarrow> True | _ \<Rightarrow> False)"

definition comparison :: "operator \<Rightarrow> bool \<Rightarrow> bool \<Rightarrow> bool" where
  "comparison op isLess isEqual =
     (case op of
        OpEq \<Rightarrow> isEqual
      | OpNe \<Rightarrow> \<not> isEqual
      | OpLt \<Rightarrow> isLess
      | OpLe \<Rightarrow> isLess \<or> isEqual
      | OpGt \<Rightarrow> \<not> isLess \<and> \<not> isEqual
      | OpGe \<Rightarrow> \<not> isLess
      | _ \<Rightarrow> False)"

text \<open>
  Modelled from the spec: a binary operator on two values (section 4.5). Arithmetic coerces
  both operands to numbers, and a zero divisor is \<open>DivisionByZero\<close>; \<open>&\<close> joins the
  operands as text; a comparison is numeric when either side is a number and on the texts
  otherwise, and gives a Boolean.
\<close>

definition applyBinary :: "library \<Rightarrow> operator \<Rightarrow> cellValue \<Rightarrow> cellValue \<Rightarrow> evaluationError + cellValue" where
  "applyBinary lib op a b =
     (if op = OpAdd \<or> op = OpSub \<or> op = OpMul \<or> op = OpDiv \<or> op = OpPow then
        (case toNumber a of
           Inl e \<Rightarrow> Inl e
         | Inr x \<Rightarrow> (case toNumber b of Inl e \<Rightarrow> Inl e | Inr y \<Rightarrow> arithmetic op x y))
      else if op = OpConcat then Inr (String (toText lib a @ toText lib b))
      else if isNumber a \<or> isNumber b then
        (case toNumber a of
           Inl e \<Rightarrow> Inl e
         | Inr x \<Rightarrow> (case toNumber b of
                        Inl e \<Rightarrow> Inl e
                      | Inr y \<Rightarrow> Inr (Boolean (comparison op (x < y) (x = y)))))
      else Inr (Boolean (comparison op (stringLess (toText lib a) (toText lib b))
                           (toText lib a = toText lib b))))"

definition applyUnary :: "operator \<Rightarrow> cellValue \<Rightarrow> evaluationError + cellValue" where
  "applyUnary op a =
     (case toNumber a of
        Inl e \<Rightarrow> Inl e
      | Inr x \<Rightarrow> if op = OpSub then Inr (Number (- x))
                 else if op = OpAdd then Inr (Number x)
                 else Inl TypeMismatch)"

definition truthy :: "cellValue \<Rightarrow> bool" where
  "truthy v =
     (case v of
        Number x \<Rightarrow> x \<noteq> 0
      | Boolean b \<Rightarrow> b
      | String s \<Rightarrow> s \<noteq> []
      | Empty \<Rightarrow> False)"

text \<open>The numeric entries of a flattened argument list; every other entry is skipped.\<close>

fun numbersOf :: "cellValue list \<Rightarrow> real list" where
  "numbersOf [] = []"
| "numbersOf (v # vs) = (case v of Number x \<Rightarrow> x # numbersOf vs | _ \<Rightarrow> numbersOf vs)"

definition isAggregate :: "string \<Rightarrow> bool" where
  "isAggregate name =
     (name = ''SUM'' \<or> name = ''AVERAGE'' \<or> name = ''COUNT'' \<or> name = ''MIN'' \<or> name = ''MAX'')"

text \<open>
  Modelled from the spec: \<open>SUM\<close>, \<open>AVERAGE\<close>, \<open>COUNT\<close>, \<open>MIN\<close> and \<open>MAX\<close> over the
  flattened values of their arguments (section 4.4). The average of no number is
  \<open>DivisionByZero\<close>; the smallest and the largest of no number are taken to be 0, which the
  specification leaves open.
\<close>

definition aggregate :: "string \<Rightarrow> cellValue list \<Rightarrow> evaluationError + cellValue" where
  "aggregate name vs =
     (let xs = numbersOf vs
      in if name = ''SUM'' then Inr (Number (sum_list xs))
         else if name = ''COUNT'' then Inr (Number (real (length xs)))
         else if name = ''AVERAGE'' then
           (if xs = [] then Inl DivisionByZero else Inr (Number (sum_list xs / real (length xs))))
         else if name = ''MIN'' then
           Inr (Number (case xs of [] \<Rightarrow> 0 | x # rest \<Rightarrow> foldl min x rest))
         else Inr (Number (case xs of [] \<Rightarrow> 0 | x # rest \<Rightarrow> foldl max x rest)))"

text \<open>
  A function of the library applied to the value lists of its arguments: an aggregate needs
  at least one argument; an unknown name is \<open>UnknownFunctionError\<close>.
\<close>

definition applyFunction ::
  "library \<Rightarrow> string \<Rightarrow> cellValue list list \<Rightarrow> evaluationError + cellValue" where
  "applyFunction lib name argValues =
     (if isAggregate name then
        (if argValues = [] then Inl ArgumentError else aggregate name (concat argValues))
      else (case helper lib name of
              None \<Rightarrow> Inl UnknownFunctionError
            | Some f \<Rightarrow> f argValues))"

text \<open>
  Modelled from the spec: the evaluator of section 4.5, reading the cells of sheet \<open>sid\<close>.
  An error of an operand is the result; the operands are evaluated from left to right. A
  range stands only as an argument of a function; elsewhere it is a \<open>TypeMismatch\<close>. \<open>IF\<close>
  takes three arguments and evaluates its condition and the one branch chosen (section
  4.4). The arguments of every other function are evaluated in order, a range as the list
  of its cells and any other argument as the one value it has.
\<close>

function (sequential) eval :: "library \<Rightarrow> cellStore \<Rightarrow> nat \<Rightarrow> expr \<Rightarrow> evaluationError + cellValue" where
  "eval lib store sid (Literal v) = Inr v"
| "eval lib store sid (CellRef col r) = resolveCell store (sid, r, col)"
| "eval lib store sid (RangeRef c1 r1 c2 r2) = Inl TypeMismatch"
| "eval lib store sid (UnaryOp op operand) =
     (case eval lib store sid operand of
        Inl e \<Rightarrow> Inl e
      | Inr a \<Rightarrow> applyUnary op a)"
| "eval lib store sid (BinaryOp op left right) =
     (case eval lib store sid left of
        Inl e \<Rightarrow> Inl e
      | Inr a \<Rightarrow>
          (case eval lib store sid right of
             Inl e \<Rightarrow> Inl e
           | Inr b \<Rightarrow> applyBinary lib op a b))"
| "eval lib store sid (FunctionCall name args) =
     (if name = ''IF'' then
        (case args of
           [condition, thenValue, elseValue] \<Rightarrow>
             (case eval lib store sid condition of
                Inl e \<Rightarrow> Inl e
              | Inr c \<Rightarrow> if truthy c then eval lib store sid thenValue
                         else eval lib store sid elseValue)
         | _ \<Rightarrow> Inl ArgumentError)
      else
        (case collect
                (map (\<lambda>arg. case arg of
                         RangeRef c1 r1 c2 r2 \<Rightarrow> resolveRange store sid c1 r1 c2 r2
                       | _ \<Rightarrow> (case eval lib store sid arg of
                                 Inl e \<Rightarrow> Inl e
                               | Inr v \<Rightarrow> Inr [v]))
                   args) of
           Inl e \<Rightarrow> Inl e
         | Inr argValues \<Rightarrow> applyFunction lib name argValues))"
  by pat_completeness auto
termination
  by (relation "measure (\<lambda>(lib, store, sid, e). size e)") (auto simp: less_Suc_eq_le size_list_estimation')

text \<open>
  Modelled from the spec: \<open>Engine.evaluateFormula\<close> (section 6): the leading \<open>=\<close> is
  stripped, the text is tokenized and parsed, and the expression is evaluated. The
  dependency graph is not a parameter: the evaluation does not touch it.
\<close>

definition stripEquals :: "string \<Rightarrow> string" where
  "stripEquals s = (case s of [] \<Rightarrow> [] | c # t \<Rightarrow> if c = CHR ''='' then t else s)"

definition compileFormula :: "string \<Rightarrow> evaluationError + expr" where
  "compileFormula formulaText =
     (case tokenize (stripEquals formulaText) of
        Inl e \<Rightarrow> Inl e
      | Inr ts \<Rightarrow> parseFormula ts)"

definition evaluateFormula ::
  "library \<Rightarrow> cellStore \<Rightarrow> nat \<Rightarrow> string \<Rightarrow> evaluationError + cellValue" where
  "evaluateFormula lib store sid formulaText =
     (case compileFormula formulaText of
        Inl e \<Rightarrow> Inl e
      | Inr e \<Rightarrow> eval lib store sid e)"

section \<open>Arithmetic formulas and their value\<close>

text \<open>
  The arithmetic formulas, written from the grammar of section 4.2 and not from the
  parser: an arithmetic expression over numeric literals, and the token sequences that
  spell it. \<open>arithTokens n ts a\<close>: the tokens \<open>ts\<close> are a phrase of level \<open>n\<close> that means \<open>a\<close>,
  where level 0 is a primary (a number, or a parenthesised phrase), 1 a primary under unary
  signs, 2 an exponent phrase (\<open>^\<close>, right-associative, its base a level-1 phrase), 3 a
  product (\<open>*\<close> and \<open>/\<close>, left-associative) and 4 a sum (\<open>+\<close> and \<open>-\<close>, left-associative); a
  phrase of one level is a phrase of the next.
\<close>

datatype arith =
    ANum real
  | ANeg arith
  | APos arith
  | APow arith arith
  | AMul arith arith
  | ADiv arith arith
  | AAdd arith arith
  | ASub arith arith

inductive arithTokens :: "nat \<Rightarrow> token list \<Rightarrow> arith \<Rightarrow> bool" where
  at_number: "arithTokens 0 [NUMBER x] (ANum x)"
| at_parens: "arithTokens 4 ts a \<Longrightarrow> arithTokens 0 (LPAREN # ts @ [RPAREN]) a"
| at_neg: "arithTokens 1 ts a \<Longrightarrow> arithTokens 1 (OPERATOR OpSub # ts) (ANeg a)"
| at_pos: "arithTokens 1 ts a \<Longrightarrow> arithTokens 1 (OPERATOR OpAdd # ts) (APos a)"
| at_pow: "arithTokens 1 ts1 a \<Longrightarrow> arithTokens 2 ts2 b
           \<Longrightarrow> arithTokens 2 (ts1 @ OPERATOR OpPow # ts2) (APow a b)"
| at_mul: "arithTokens 3 ts1 a \<Longrightarrow> arithTokens 2 ts2 b
           \<Longrightarrow> arithTokens 3 (ts1 @ OPERATOR OpMul # ts2) (AMul a b)"
| at_div: "arithTokens 3 ts1 a \<Longrightarrow> arithTokens 2 ts2 b
           \<Longrightarrow> arithTokens 3 (ts1 @ OPERATOR OpDiv # ts2) (ADiv a b)"
| at_add: "arithTokens 4 ts1 a \<Longrightarrow> arithTokens 3 ts2 b
           \<Longrightarrow> arithTokens 4 (ts1 @ OPERATOR OpAdd # ts2) (AAdd a b)"
| at_sub: "arithTokens 4 ts1 a \<Longrightarrow> arithTokens 3 ts2 b
           \<Longrightarrow> arithTokens 4 (ts1 @ OPERATOR OpSub # ts2) (ASub a b)"
| at_lift: "arithTokens n ts a \<Longrightarrow> n < 4 \<Longrightarrow> arithTokens (Suc n) ts a"

text \<open>
  The power of real numbers, where it has a value: a positive base to any exponent, zero
  to a positive exponent, and a negative base to a whole exponent.
\<close>

definition realPower :: "real \<Rightarrow> real \<Rightarrow> real option" where
  "realPower x y =
     (if 0 < x then Some (x powr y)
      else if x = 0 then (if 0 < y then Some 0 else None)
      else if y \<in> \<int> then Some (x powi \<lfloor>y\<rfloor>)
      else None)"

text \<open>
  The value of an arithmetic expression, written from the arithmetic and not from the
  evaluator: \<open>None\<close> where it has none (a division by zero, or a power without a value).
\<close>

fun arithValue :: "arith \<Rightarrow> real option" where
  "arithValue (ANum x) = Some x"
| "arithValue (ANeg a) = (case arithValue a of None \<Rightarrow> None | Some x \<Rightarrow> Some (- x))"
| "arithValue (APos a) = arithValue a"
| "arithValue (APow a b) =
     (case (arithValue a, arithValue b) of
        (Some x, Some y) \<Rightarrow> realPower x y | _ \<Rightarrow> None)"
| "arithValue (AMul a b) =
     (case (arithValue a, arithValue b) of
        (Some x, Some y) \<Rightarrow> Some (x * y) | _ \<Rightarrow> None)"
| "arithValue (ADiv a b) =
     (case (arithValue a, arithValue b) of
        (Some x, Some y) \<Rightarrow> if y = 0 then None else Some (x / y) | _ \<Rightarrow> None)"
| "arithValue (AAdd a b) =
     (case (arithValue a, arithValue b) of
        (Some x, Some y) \<Rightarrow> Some (x + y) | _ \<Rightarrow> None)"
| "arithValue (ASub a b) =
     (case (arithValue a, arithValue b) of
        (Some x, Some y) \<Rightarrow> Some (x - y) | _ \<Rightarrow> None)"

text \<open>The expression node an arithmetic expression is parsed to.\<close>

fun arithExpr :: "arith \<Rightarrow> expr" where
  "arithExpr (ANum x) = Literal (Number x)"
| "arithExpr (ANeg a) = UnaryOp OpSub (arithExpr a)"
| "arithExpr (APos a) = UnaryOp OpAdd (arithExpr a)"
| "arithExpr (APow a b) = BinaryOp OpPow (arithExpr a) (arithExpr b)"
| "arithExpr (AMul a b) = BinaryOp OpMul (arithExpr a) (arithExpr b)"
| "arithExpr (ADiv a b) = BinaryOp OpDiv (arithExpr a) (arithExpr b)"
| "arithExpr (AAdd a b) = BinaryOp OpAdd (arithExpr a) (arithExpr b)"
| "arithExpr (ASub a b) = BinaryOp OpSub (arithExpr a) (arithExpr b)"

text \<open>
  What may follow a phrase that the parser of binary level \<open>n\<close> has read as its operand: no
  \<open>^\<close> and no operator of a tighter level, which would belong to the operand.
\<close>

definition noTighter :: "nat \<Rightarrow> token list \<Rightarrow> bool" where
  "noTighter n ts =
     (case ts of
        [] \<Rightarrow> True
      | tok # rest \<Rightarrow>
          (case tok of
             OPERATOR op \<Rightarrow> (case binaryLevel op of None \<Rightarrow> False | Some m \<Rightarrow> n \<le> m)
           | _ \<Rightarrow> True))"

definition plainLibrary :: library where
  "plainLibrary = \<lparr> formatNumber = (\<lambda>x. []), helper = (\<lambda>name. None) \<rparr>"

text \<open>
  The parsers read the tokens \<open>ts\<close> as the expression \<open>e\<close> at level \<open>n\<close> and at every looser
  level, whatever tokens follow that the level leaves alone: the primary, unary and exponent
  parsers return \<open>e\<close> and the tokens after \<open>ts\<close>, and a binary level goes on from \<open>e\<close> as its
  left operand.
\<close>

definition phraseParsed :: "nat \<Rightarrow> token list \<Rightarrow> expr \<Rightarrow> bool" where
  "phraseParsed n ts e =
     (\<forall>rest.
        (n = 0 \<longrightarrow> parsePrimary (ts @ rest) = Inr (e, rest))
        \<and> (n \<le> 1 \<longrightarrow> parseUnary (ts @ rest) = Inr (e, rest))
        \<and> (n \<le> 2 \<longrightarrow> noTighter 0 rest \<longrightarrow> parsePower (ts @ rest) = Inr (e, rest))
        \<and> (\<forall>k. n \<le> 3 + k \<longrightarrow> noTighter k rest
               \<longrightarrow> parseLevel k (ts @ rest) = parseLevelRest k e rest))"

section \<open>The cell store as the formula engine reads it\<close>



section \<open>Arithmetic formula texts\<close>

text \<open>
  The well-formed arithmetic formulas as texts, written from sections 4.1 and 4.2 and not
  from the tokenizer. A digit string read as a whole number: the last digit counts once
  and each digit before it ten times more. Read as a fraction: the first digit counts a
  tenth and each digit after it ten times less.
\<close>

definition decimalDigits :: string where
  "decimalDigits = ''0123456789''"

definition digitValue :: "char \<Rightarrow> nat" where
  "digitValue c = length (takeWhile (\<lambda>d. d \<noteq> c) decimalDigits)"

definition isDigits :: "string \<Rightarrow> bool" where
  "isDigits ds = (ds \<noteq> [] \<and> set ds \<subseteq> set decimalDigits)"

fun unitsFirst :: "string \<Rightarrow> nat" where
  "unitsFirst [] = 0"
| "unitsFirst (d # ds) = digitValue d + 10 * unitsFirst ds"

definition wholeValue :: "string \<Rightarrow> nat" where
  "wholeValue ds = unitsFirst (rev ds)"

fun fractionValue :: "string \<Rightarrow> real" where
  "fractionValue [] = 0"
| "fractionValue (d # ds) = (real (digitValue d) + fractionValue ds) / 10"

text \<open>
  A number (section 4.1: decimal, optional exponent): digits, then optionally a point and
  digits, then optionally \<open>e\<close> or \<open>E\<close>, an optional sign and digits; its value is the whole
  number plus the fraction, times ten to the exponent.
\<close>

inductive fractionText :: "string \<Rightarrow> real \<Rightarrow> bool" where
  fraction_none: "fractionText [] 0"
| fraction_digits: "isDigits ds \<Longrightarrow> fractionText (CHR ''.'' # ds) (fractionValue ds)"

inductive exponentText :: "string \<Rightarrow> int \<Rightarrow> bool" where
  exponent_none: "exponentText [] 0"
| exponent_plain:
    "isDigits ds \<Longrightarrow> c = CHR ''e'' \<or> c = CHR ''E'' \<Longrightarrow> exponentText (c # ds) (int (wholeValue ds))"
| exponent_plus:
    "isDigits ds \<Longrightarrow> c = CHR ''e'' \<or> c = CHR ''E''
     \<Longrightarrow> exponentText (c # CHR ''+'' # ds) (int (wholeValue ds))"
| exponent_minus:
    "isDigits ds \<Longrightarrow> c = CHR ''e'' \<or> c = CHR ''E''
     \<Longrightarrow> exponentText (c # CHR ''-'' # ds) (- int (wholeValue ds))"

inductive numeralText :: "string \<Rightarrow> real \<Rightarrow> bool" where
  numeral_parts:
    "isDigits w \<Longrightarrow> fractionText f fv \<Longrightarrow> exponentText e ev
     \<Longrightarrow> numeralText (w @ f @ e) ((real (wholeValue w) + fv) * 10 powi ev)"

text \<open>White space: the space, the tab, the line feed and the carriage return.\<close>

definition whiteSpace :: string where
  "whiteSpace = [CHR '' '', CHR 0x09, CHR 0x0A, CHR 0x0D]"

text \<open>
  \<open>arithText n s a\<close>: the text \<open>s\<close> is a phrase of level \<open>n\<close> that means \<open>a\<close>, with the levels
  of \<open>arithTokens\<close>: 0 a number or a parenthesised phrase, 1 a primary under unary signs, 2
  an exponent phrase (\<open>^\<close>, right-associative), 3 a product (\<open>*\<close> and \<open>/\<close>,
  left-associative) and 4 a sum (\<open>+\<close> and \<open>-\<close>, left-associative). White space may stand
  before and after every phrase.
\<close>

inductive arithText :: "nat \<Rightarrow> string \<Rightarrow> arith \<Rightarrow> bool" where
  ax_number: "numeralText s x \<Longrightarrow> arithText 0 s (ANum x)"
| ax_parens: "arithText 4 s a \<Longrightarrow> arithText 0 (CHR ''('' # s @ '')'') a"
| ax_neg: "arithText 1 s a \<Longrightarrow> arithText 1 (CHR ''-'' # s) (ANeg a)"
| ax_pos: "arithText 1 s a \<Longrightarrow> arithText 1 (CHR ''+'' # s) (APos a)"
| ax_pow: "arithText 1 s1 a \<Longrightarrow> arithText 2 s2 b
           \<Longrightarrow> arithText 2 (s1 @ CHR ''^'' # s2) (APow a b)"
| ax_mul: "arithText 3 s1 a \<Longrightarrow> arithText 2 s2 b
           \<Longrightarrow> arithText 3 (s1 @ CHR ''*'' # s2) (AMul a b)"
| ax_div: "arithText 3 s1 a \<Longrightarrow> arithText 2 s2 b
           \<Longrightarrow> arithText 3 (s1 @ CHR ''/'' # s2) (ADiv a b)"
| ax_add: "arithText 4 s1 a \<Longrightarrow> arithText 3 s2 b
           \<Longrightarrow> arithText 4 (s1 @ CHR ''+'' # s2) (AAdd a b)"
| ax_sub: "arithText 4 s1 a \<Longrightarrow> arithText 3 s2 b
           \<Longrightarrow> arithText 4 (s1 @ CHR ''-'' # s2) (ASub a b)"
| ax_lift: "arithText n s a \<Longrightarrow> n < 4 \<Longrightarrow> arithText (Suc n) s a"
| ax_space_before: "arithText n s a \<Longrightarrow> c \<in> set whiteSpace \<Longrightarrow> arithText n (c # s) a"
| ax_space_after: "arithText n s a \<Longrightarrow> c \<in> set whiteSpace \<Longrightarrow> arithText n (s @ [c]) a"

text \<open>
  What may follow a phrase in a formula text: nothing, white space, an operator or a
  parenthesis.
\<close>

definition delimited :: "string \<Rightarrow> bool" where
  "delimited rest = (case rest of [] \<Rightarrow> True | c # t \<Rightarrow> c \<in> set (''+-*/^()'' @ whiteSpace))"

text \<open>The tokens \<open>ts\<close> before the tokens of a tokenizer result, or its error.\<close>

definition tokensBefore ::
  "token list \<Rightarrow> evaluationError + token list \<Rightarrow> evaluationError + token list" where
  "tokensBefore ts res = (case res of Inl e \<Rightarrow> Inl e | Inr ts' \<Rightarrow> Inr (ts @ ts'))"

section \<open>Reading cells in formulas\<close>

text \<open>A value read as a number, every value that is not a number counting as 0.\<close>

definition numberOrZero :: "cellValue \<Rightarrow> real" where
  "numberOrZero v = (case v of Number x \<Rightarrow> x | _ \<Rightarrow> 0)"

definition isNumberOrEmpty :: "cellValue \<Rightarrow> bool" where
  "isNumberOrEmpty v = (case v of Number x \<Rightarrow> True | Empty \<Rightarrow> True | _ \<Rightarrow> False)"

text \<open>
  Modelled from the spec: the evaluation of one formula cell in a recalculation (section
  4.6, step 5): its formula is evaluated and the value or the error is put on the cell
  through \<open>setCalculatedValue\<close>. A position without a cell, and a cell without a formula,
  are left as they are.
\<close>

definition evaluateCell :: "library \<Rightarrow> cellStore \<Rightarrow> nat \<times> nat \<times> nat \<Rightarrow> cellStore" where
  "evaluateCell lib store p =
     (case store p of
        None \<Rightarrow> store
      | Some c \<Rightarrow>
          (case cs_formula c of
             None \<Rightarrow> store
           | Some formulaText \<Rightarrow>
               setCalculatedValue store p (evaluateFormula lib store (fst p) formulaText)))"

text \<open>
  \<open>readsFirstCell store p cells\<close>: resolving the cells of a range in their order reads the
  cell \<open>p\<close> before any of them is in error.
\<close>

fun readsFirstCell :: "cellStore \<Rightarrow> nat \<times> nat \<times> nat \<Rightarrow> (nat \<times> nat \<times> nat) list \<Rightarrow> bool" where
  "readsFirstCell store p [] = False"
| "readsFirstCell store p (q # cells) =
     (q = p \<or> (case resolveCell store q of
                  Inl e \<Rightarrow> False
                | Inr v \<Rightarrow> readsFirstCell store p cells))"

text \<open>
  \<open>readsFirst lib store sid target e\<close>: evaluating \<open>e\<close> reads the cell \<open>target\<close> (column and
  row) before anything in \<open>e\<close> fails. \<open>e\<close> is the reference itself; or an operator with such
  an operand, the operands to its left having values; or an \<open>IF\<close> whose condition is such
  an expression, or has a value that chooses such a branch; or another function with such
  an argument (for a range: the cells before \<open>target\<close> resolve), the arguments to its left
  having values. \<open>readsFirstArgs\<close> is that last condition on an argument list.
\<close>

function (sequential)
  readsFirst :: "library \<Rightarrow> cellStore \<Rightarrow> nat \<Rightarrow> nat \<times> nat \<Rightarrow> expr \<Rightarrow> bool" and
  readsFirstArgs :: "library \<Rightarrow> cellStore \<Rightarrow> nat \<Rightarrow> nat \<times> nat \<Rightarrow> expr list \<Rightarrow> bool"
where
  "readsFirst lib store sid target (Literal v) = False"
| "readsFirst lib store sid target (CellRef col r) = ((col, r) = target)"
| "readsFirst lib store sid target (RangeRef c1 r1 c2 r2) = False"
| "readsFirst lib store sid target (UnaryOp op operand) = readsFirst lib store sid target operand"
| "readsFirst lib store sid target (BinaryOp op left right) =
     (readsFirst lib store sid target left
      \<or> (case eval lib store sid left of
            Inl e \<Rightarrow> False
          | Inr a \<Rightarrow> readsFirst lib store sid target right))"
| "readsFirst lib store sid target (FunctionCall name args) =
     (if name = ''IF'' then
        (case args of
           [condition, thenValue, elseValue] \<Rightarrow>
             (readsFirst lib store sid target condition
              \<or> (case eval lib store sid condition of
                    Inl e \<Rightarrow> False
                  | Inr c \<Rightarrow> if truthy c then readsFirst lib store sid target thenValue
                             else readsFirst lib store sid target elseValue))
         | _ \<Rightarrow> False)
      else readsFirstArgs lib store sid target args)"
| "readsFirstArgs lib store sid target [] = False"
| "readsFirstArgs lib store sid target (RangeRef c1 r1 c2 r2 # args) =
     (readsFirstCell store (sid, snd target, fst target) (rangeCells sid c1 r1 c2 r2)
      \<or> (case resolveRange store sid c1 r1 c2 r2 of
            Inl e \<Rightarrow> False
          | Inr vs \<Rightarrow> readsFirstArgs lib store sid target args))"
| "readsFirstArgs lib store sid target (arg # args) =
     (readsFirst lib store sid target arg
      \<or> (case eval lib store sid arg of
            Inl e \<Rightarrow> False
          | Inr v \<Rightarrow> readsFirstArgs lib store sid target args))"
  by pat_completeness auto
termination
  by (relation "measure (\<lambda>x. case x of
                   Inl (lib, store, sid, target, e) \<Rightarrow> size e
                 | Inr (lib, store, sid, target, es) \<Rightarrow> size_list size es)")
     (auto simp: less_Suc_eq_le)

text \<open>A formula cell that holds the formula \<open>=10/0\<close> and, once evaluated, its error.\<close>

definition divisionCell :: storedCell where
  "divisionCell =
     \<lparr> cs_value = ''=10/0'', cs_formula = Some ''=10/0'', cs_dataType = FormulaCell,
       cs_calculatedValue = None, cs_error = None \<rparr>"

text \<open>Sheet 1 with that cell in A1, before the cell is evaluated.\<close>

definition divisionSheet :: cellStore where
  "divisionSheet = Map.empty((1, 1, 1) \<mapsto> divisionCell)"

text \<open>That sheet once A1 has been evaluated and its result stored.\<close>

definition erroredSheet :: cellStore where
  "erroredSheet = evaluateCell plainLibrary divisionSheet (1, 1, 1)"

text \<open>A cell that holds a literal.\<close>

definition literalCell :: "cellKind \<Rightarrow> string \<Rightarrow> storedCell" where
  "literalCell kind s =
     \<lparr> cs_value = s, cs_formula = None, cs_dataType = kind,
       cs_calculatedValue = None, cs_error = None \<rparr>"

text \<open>Sheet 1 with 10 in A1 and the text abc in A2; A3 is unset.\<close>

definition mixedSheet :: cellStore where
  "mixedSheet = Map.empty((1, 1, 1) \<mapsto> literalCell NumberCell ''10'',
                          (1, 2, 1) \<mapsto> literalCell TextCell ''abc'')"

text \<open>Sheet 1 with 10 in A1 and 2.5 in A2; A3 is unset.\<close>

definition numberSheet :: cellStore where
  "numberSheet = Map.empty((1, 1, 1) \<mapsto> literalCell NumberCell ''10'',
                           (1, 2, 1) \<mapsto> literalCell NumberCell ''2.5'')"

text \<open>
  Sheet 1 with 10 in A1, 0 in B1 and the formula \<open>=A1/B1\<close> in C1, before the formula is
  evaluated.
\<close>

definition quotientSheet :: cellStore where
  "quotientSheet =
     Map.empty((1, 1, 1) \<mapsto> literalCell NumberCell ''10'',
               (1, 1, 2) \<mapsto> literalCell NumberCell ''0'',
               (1, 1, 3) \<mapsto> \<lparr> cs_value = ''=A1/B1'', cs_formula = Some ''=A1/B1'',
                                cs_dataType = FormulaCell, cs_calculatedValue = None,
                                cs_error = None \<rparr>)"

section \<open>Verification\<close>

subsection \<open>Rounding to a double\<close>

lemma roundHalfEven_error: "\<bar>of_int (roundHalfEven t) - t\<bar> \<le> 1 / 2"
  unfolding roundHalfEven_def Let_def by (auto simp: abs_if) linarith+

lemma roundHalfEven_of_int: "roundHalfEven (of_int k) = k"
  by (simp add: roundHalfEven_def)

lemma roundHalfEven_floor: "\<lfloor>t\<rfloor> \<le> roundHalfEven t"
  by (simp add: roundHalfEven_def Let_def)

lemma roundHalfEven_ceiling: "roundHalfEven t \<le> \<lceil>t\<rceil>"
proof (cases "t = of_int \<lfloor>t\<rfloor>")
  case True
  then have "roundHalfEven t = \<lfloor>t\<rfloor>"
    by (metis roundHalfEven_of_int)
  then show ?thesis by (simp add: floor_le_ceiling)
next
  case False
  then have "\<lceil>t\<rceil> = \<lfloor>t\<rfloor> + 1"
    by (metis ceiling_altdef)
  then show ?thesis by (simp add: roundHalfEven_def Let_def)
qed

lemma roundHalfEven_ge: "of_int m \<le> t \<Longrightarrow> m \<le> roundHalfEven t"
  using roundHalfEven_floor [of t] le_floor_iff [of m t] by linarith

lemma roundHalfEven_le: "t \<le> of_int m \<Longrightarrow> roundHalfEven t \<le> m"
  using roundHalfEven_ceiling [of t] ceiling_le_iff [of t m] by linarith

lemma bitlen_powi:
  assumes "0 < a"
  shows "2 powi (bitlen a - 1) \<le> (of_int a :: rat)" "(of_int a :: rat) < 2 powi (bitlen a)"
proof -
  from bitlen_bounds [OF assms] have b: "2 ^ nat (bitlen a - 1) \<le> a" "a < 2 ^ nat (bitlen a)"
    by simp_all
  have pos: "0 < bitlen a" using b(2) assms by (cases "bitlen a \<le> 0") auto
  have "(2::rat) powi (bitlen a - 1) = 2 ^ nat (bitlen a - 1)"
    using pos by (simp add: power_int_def)
  also have "\<dots> = of_int (2 ^ nat (bitlen a - 1))" by simp
  also have "\<dots> \<le> of_int a" using b(1) by (simp only: of_int_le_iff)
  finally show "2 powi (bitlen a - 1) \<le> (of_int a :: rat)" .
  have "(of_int a :: rat) < of_int (2 ^ nat (bitlen a))" using b(2) by (simp only: of_int_less_iff)
  also have "\<dots> = 2 powi (bitlen a)" using pos by (simp add: power_int_def)
  finally show "(of_int a :: rat) < 2 powi (bitlen a)" .
qed

lemma powi_Suc: "(2::rat) powi (k + 1) = 2 * 2 powi k"
  by (simp add: power_int_add)

lemma binaryExponent_bounds:
  assumes "0 < x"
  shows "2 powi (binaryExponent x) \<le> x" "x < 2 powi (binaryExponent x + 1)"
proof -
  obtain a b where q: "quotient_of x = (a, b)" by (cases "quotient_of x")
  then have b: "0 < b" and x: "x = of_int a / of_int b"
    using quotient_of_denom_pos quotient_of_div by blast+
  have a: "0 < a" using assms b x by (simp add: zero_less_divide_iff)
  define k where "k = bitlen a - bitlen b"
  note A = bitlen_powi [OF a] and B = bitlen_powi [OF b]
  have bq: "(0::rat) < of_int b" using b by simp
  have up: "x < 2 powi (k + 1)"
  proof -
    have "of_int a < (2::rat) powi (bitlen a)" by (rule A(2))
    also have "\<dots> = 2 powi (k + 1) * 2 powi (bitlen b - 1)"
      by (simp add: k_def power_int_add [symmetric])
    also have "\<dots> \<le> 2 powi (k + 1) * of_int b"
      using B(1) by (simp add: mult_left_mono)
    finally show ?thesis using bq by (simp add: x pos_divide_less_eq)
  qed
  have lo: "2 powi (k - 1) < x"
  proof -
    have "(2::rat) powi (k - 1) * of_int b < 2 powi (k - 1) * 2 powi (bitlen b)"
      using B(2) by (simp add: mult_strict_left_mono)
    also have "\<dots> = 2 powi (bitlen a - 1)"
      by (simp add: k_def power_int_add [symmetric])
    also have "\<dots> \<le> of_int a" by (rule A(1))
    finally show ?thesis using bq by (simp add: x pos_less_divide_eq)
  qed
  have e: "binaryExponent x = (if of_int b * 2 powi k \<le> (of_int a :: rat) then k else k - 1)"
    by (simp add: binaryExponent_def q k_def Let_def)
  show "2 powi (binaryExponent x) \<le> x"
  proof (cases "of_int b * 2 powi k \<le> (of_int a :: rat)")
    case True
    then have "2 powi k \<le> x" using bq by (simp add: x pos_le_divide_eq mult.commute)
    with True show ?thesis by (simp add: e)
  next
    case False
    then show ?thesis using lo by (simp add: e)
  qed
  show "x < 2 powi (binaryExponent x + 1)"
  proof (cases "of_int b * 2 powi k \<le> (of_int a :: rat)")
    case True
    then show ?thesis using up by (simp add: e)
  next
    case False
    then have "x < 2 powi k" using bq by (simp add: x pos_divide_less_eq mult.commute)
    with False show ?thesis by (simp add: e)
  qed
qed

lemma toDouble_zero: "toDouble 0 = 0"
  by (simp add: toDouble_def)

lemma toDouble_pos:
  assumes "0 < x"
  shows "toDouble x = 2 powi (binaryExponent x - 52)
                        * of_int (roundHalfEven (x / 2 powi (binaryExponent x - 52)))"
  using assms by (simp add: toDouble_def Let_def)

lemma toDouble_nonneg: "0 \<le> x \<Longrightarrow> 0 \<le> toDouble x"
proof (cases "x = 0")
  case True
  then show ?thesis by (simp add: toDouble_zero)
next
  case False
  assume "0 \<le> x"
  with False have x: "0 < x" by simp
  have "(0::rat) \<le> x / 2 powi (binaryExponent x - 52)"
    using x by simp
  then have "0 \<le> roundHalfEven (x / 2 powi (binaryExponent x - 52))"
    using roundHalfEven_ge [of 0] by simp
  then show ?thesis using x by (simp add: toDouble_pos)
qed

lemma toDouble_error:
  assumes "0 \<le> x"
  shows "\<bar>toDouble x - x\<bar> \<le> x / 2 ^ 53"
proof (cases "x = 0")
  case True
  then show ?thesis by (simp add: toDouble_zero)
next
  case False
  with assms have x: "0 < x" by simp
  define u :: rat where "u = 2 powi (binaryExponent x - 52)"
  have u: "0 < u" by (simp add: u_def)
  have "toDouble x - x = u * (of_int (roundHalfEven (x / u)) - x / u)"
    using u by (simp add: toDouble_pos [OF x] u_def [symmetric] algebra_simps)
  then have "\<bar>toDouble x - x\<bar> = u * \<bar>of_int (roundHalfEven (x / u)) - x / u\<bar>"
    using u by (simp add: abs_mult)
  also have "\<dots> \<le> u * (1 / 2)"
    using roundHalfEven_error [of "x / u"] u by (simp add: mult_left_mono)
  also have "u * (1 / 2) = 2 powi (binaryExponent x) / 2 ^ 53"
    by (simp add: u_def power_int_diff)
  also have "\<dots> \<le> x / 2 ^ 53"
    using binaryExponent_bounds(1) [OF x] by (simp add: divide_right_mono)
  finally show ?thesis .
qed


lemma toDouble_le_twice: "0 \<le> x \<Longrightarrow> toDouble x \<le> 2 * x"
proof -
  assume x: "0 \<le> x"
  have "x / 2 ^ 53 \<le> x" using x by (simp add: divide_le_eq)
  with toDouble_error [OF x] show ?thesis by linarith
qed

lemma step_decreases:
  assumes "0 < col"
  shows "\<lfloor>toDouble (of_int \<lfloor>toDouble (of_int col - 1)\<rfloor> / 26)\<rfloor> < col"
proof -
  define y :: rat where "y = of_int col - 1"
  have y: "0 \<le> y" using assms by (simp add: y_def)
  define c1 where "c1 = \<lfloor>toDouble y\<rfloor>"
  have c1: "0 \<le> c1" "of_int c1 \<le> 2 * y"
    using toDouble_nonneg [OF y] toDouble_le_twice [OF y] by (simp_all add: c1_def) linarith
  have z: "(0::rat) \<le> of_int c1 / 26" using c1(1) by simp
  have "toDouble (of_int c1 / 26) \<le> 2 * (of_int c1 / 26)"
    by (rule toDouble_le_twice [OF z])
  also have "\<dots> \<le> 2 * (2 * y / 26)" using c1(2) by simp
  also have "\<dots> < of_int col" using y by (simp add: y_def)
  finally have "\<lfloor>toDouble (of_int c1 / 26)\<rfloor> < col" by (simp add: floor_less_iff)
  then show ?thesis by (simp add: c1_def y_def)
qed

subsection \<open>The loop of \<open>getColumnLetter\<close> ends\<close>

termination getColumnLetter_loop
proof (relation "measure (\<lambda>(col, result). nat col)")
  show "wf (measure (\<lambda>(col, result). nat col))" by simp
next
  fix col :: int and result :: string and x
  assume "0 < col" "x = \<lfloor>toDouble (of_int col - 1)\<rfloor>"
  then show "((\<lfloor>toDouble (of_int x / 26)\<rfloor>, fromCharCode (65 + x mod 26) # result), col, result)
         \<in> measure (\<lambda>(col, result). nat col)"
    using step_decreases [of col] by simp
qed


declare getColumnLetter_loop.simps [simp del]

subsection \<open>Up to \<open>2^53\<close> the loop is the loop on the integers\<close>

lemma powi_neg: "k \<le> 0 \<Longrightarrow> (2::rat) powi k = 1 / 2 ^ nat (- k)"
  by (simp add: power_int_def field_simps)

lemma binaryExponent_less:
  assumes "0 < x" "x < 2 ^ n"
  shows "binaryExponent x < int n"
proof (rule ccontr)
  assume "\<not> binaryExponent x < int n"
  then have "int n \<le> binaryExponent x" by simp
  then have "(2::rat) powi (int n) \<le> 2 powi (binaryExponent x)"
    by (intro power_int_increasing) simp_all
  with binaryExponent_bounds(1) [OF assms(1)] assms(2) show False by simp
qed

lemma toDouble_of_int:
  assumes "0 \<le> k" "k < 2 ^ 53"
  shows "toDouble (of_int k) = of_int k"
proof (cases "k = 0")
  case True
  then show ?thesis by (simp add: toDouble_zero)
next
  case False
  with assms have k: "(0::rat) < of_int k" by simp
  have "(of_int k :: rat) < 2 ^ 53" using assms(2) of_int_less_iff [of k "2 ^ 53", where ?'a = rat] by simp
  from binaryExponent_less [OF k this] have e: "binaryExponent (of_int k) - 52 \<le> 0" by simp
  define n where "n = nat (- (binaryExponent (of_int k :: rat) - 52))"
  have u: "(2::rat) powi (binaryExponent (of_int k) - 52) = 1 / 2 ^ n"
    unfolding n_def by (rule powi_neg [OF e])
  have "of_int k / (1 / 2 ^ n) = (of_int (k * 2 ^ n) :: rat)" by simp
  then have "roundHalfEven (of_int k / (1 / 2 ^ n)) = k * 2 ^ n"
    by (simp only: roundHalfEven_of_int)
  then show ?thesis by (simp add: toDouble_pos [OF k] u)
qed

lemma floor_quotient_26:
  assumes "0 \<le> c" "c < 2 ^ 53"
  shows "\<lfloor>toDouble (of_int c / 26)\<rfloor> = c div 26"
proof (cases "c = 0")
  case True
  then show ?thesis by (simp add: toDouble_zero)
next
  case False
  define x :: rat where "x = of_int c / 26"
  define m where "m = c div 26"
  define r where "r = c mod 26"
  have c: "c = 26 * m + r" and r: "0 \<le> r" "r \<le> 25" by (simp_all add: m_def r_def)
  have x: "0 < x" using False assms(1) by (simp add: x_def)
  have xm: "x = of_int m + of_int r / 26" by (simp add: x_def c)
  have "x < 2 ^ 49"
  proof -
    have "(of_int c :: rat) < 2 ^ 53"
      using assms(2) of_int_less_iff [of c "2 ^ 53", where ?'a = rat] by simp
    then show ?thesis by (simp add: x_def)
  qed
  from binaryExponent_less [OF x this] have e: "binaryExponent x - 52 \<le> 0"
    and e4: "4 \<le> - (binaryExponent x - 52)" by simp_all
  define n where "n = nat (- (binaryExponent x - 52))"
  have n: "4 \<le> n" using e4 by (simp add: n_def)
  have u: "(2::rat) powi (binaryExponent x - 52) = 1 / 2 ^ n"
    unfolding n_def by (rule powi_neg [OF e])
  define R where "R = roundHalfEven (x * 2 ^ n)"
  have td: "toDouble x = of_int R / 2 ^ n"
    by (simp add: toDouble_pos [OF x] u R_def)
  have N16: "(16::rat) \<le> 2 ^ n"
  proof -
    have "(2::rat) ^ 4 \<le> 2 ^ n" using n by (intro power_increasing) simp_all
    then show ?thesis by simp
  qed
  have lo: "m * 2 ^ n \<le> R"
  proof -
    have "(of_int (m * 2 ^ n) :: rat) \<le> x * 2 ^ n"
      using r(1) by (simp add: xm)
    then show ?thesis unfolding R_def by (rule roundHalfEven_ge)
  qed
  have hi: "of_int R < (of_int m + 1) * (2::rat) ^ n"
  proof -
    have "of_int R \<le> x * 2 ^ n + 1 / 2"
      using roundHalfEven_error [of "x * 2 ^ n"] unfolding R_def by linarith
    moreover have "x \<le> of_int m + 25 / 26"
      using r(2) by (simp add: xm)
    then have "x * 2 ^ n \<le> (of_int m + 25 / 26) * 2 ^ n"
      by (simp add: mult_right_mono)
    moreover have "(of_int m + 25 / 26) * 2 ^ n + 1 / 2 < (of_int m + 1) * (2::rat) ^ n"
      using N16 by (simp add: algebra_simps)
    ultimately show ?thesis by linarith
  qed
  have "of_int m \<le> toDouble x"
  proof -
    have "(of_int (m * 2 ^ n) :: rat) \<le> of_int R" using lo by (simp only: of_int_le_iff)
    then show ?thesis by (simp add: td le_divide_eq)
  qed
  moreover have "toDouble x < of_int m + 1"
    using hi by (simp add: td divide_less_eq)
  ultimately have "\<lfloor>toDouble x\<rfloor> = m" by (simp add: floor_eq_iff)
  then show ?thesis by (simp add: x_def m_def)
qed

lemma getColumnLetter_loop_exact:
  assumes "0 < col" "col \<le> 2 ^ 53"
  shows "getColumnLetter_loop col result
           = getColumnLetter_loop ((col - 1) div 26) (fromCharCode (65 + (col - 1) mod 26) # result)"
proof -
  have "toDouble (of_int col - 1) = of_int (col - 1)"
    using toDouble_of_int [of "col - 1"] assms by simp
  then have d: "\<lfloor>toDouble (of_int col - 1)\<rfloor> = col - 1" by simp
  have q: "\<lfloor>toDouble ((of_int col - 1) / 26)\<rfloor> = (col - 1) div 26"
    using floor_quotient_26 [of "col - 1"] assms by simp
  show ?thesis
    using assms(1) by (subst getColumnLetter_loop.simps) (simp add: d q Let_def)
qed


subsection \<open>Properties of the column letters\<close>

lemma getColumnLetter_loop_acc:
  "getColumnLetter_loop col acc = getColumnLetter_loop col [] @ acc"
proof (induction "nat col" arbitrary: col acc rule: less_induct)
  case less
  show ?case
  proof (cases "col > 0")
    case True
    define col1 where "col1 = \<lfloor>toDouble (of_int col - 1)\<rfloor>"
    define q where "q = \<lfloor>toDouble (of_int col1 / 26)\<rfloor>"
    define c where "c = fromCharCode (65 + col1 mod 26)"
    have q: "nat q < nat col" using True step_decreases [of col] by (simp add: q_def col1_def)
    have unfold: "getColumnLetter_loop col r = getColumnLetter_loop q (c # r)" for r
      using True by (subst getColumnLetter_loop.simps) (simp add: Let_def q_def c_def col1_def)
    have "getColumnLetter_loop col acc = getColumnLetter_loop q (c # acc)"
      by (rule unfold)
    also have "\<dots> = getColumnLetter_loop q [] @ (c # acc)"
      using less.hyps [OF q] .
    also have "\<dots> = (getColumnLetter_loop q [] @ [c]) @ acc"
      by simp
    also have "getColumnLetter_loop q [] @ [c] = getColumnLetter_loop q [c]"
      using less.hyps [OF q, of "[c]"] by simp
    also have "getColumnLetter_loop q [c] = getColumnLetter_loop col []"
      by (rule unfold [symmetric])
    finally show ?thesis .
  next
    case False
    then show ?thesis by (simp add: getColumnLetter_loop.simps)
  qed
qed

lemma getColumnLetter_nonpos: "col \<le> 0 \<Longrightarrow> getColumnLetter col = []"
  by (simp add: getColumnLetter_def getColumnLetter_loop.simps)

lemma getColumnLetter_double_step:
  assumes "col > 0"
  shows "getColumnLetter col
           = getColumnLetter \<lfloor>toDouble (of_int \<lfloor>toDouble (of_int col - 1)\<rfloor> / 26)\<rfloor>
               @ [fromCharCode (65 + \<lfloor>toDouble (of_int col - 1)\<rfloor> mod 26)]"
  unfolding getColumnLetter_def using assms
  by (subst getColumnLetter_loop.simps, subst getColumnLetter_loop_acc) (simp add: Let_def)

lemma getColumnLetter_step:
  assumes "col > 0" "col \<le> 2 ^ 53"
  shows "getColumnLetter col
           = getColumnLetter ((col - 1) div 26) @ [fromCharCode (65 + (col - 1) mod 26)]"
  unfolding getColumnLetter_def
  by (subst getColumnLetter_loop_exact [OF assms], subst getColumnLetter_loop_acc) simp

lemma letterValue_fromCharCode:
  "0 \<le> k \<Longrightarrow> k < 26 \<Longrightarrow> letterValue (fromCharCode (65 + k)) = k + 1"
proof -
  assume a: "0 \<le> k" "k < 26"
  have "of_char (char_of (65 + k)) = (65 + k) mod 256"
    by (simp add: of_char_of)
  with a show ?thesis
    by (simp add: letterValue_def fromCharCode_def)
qed

lemma isUpperLetter_fromCharCode:
  "0 \<le> k \<Longrightarrow> k < 26 \<Longrightarrow> isUpperLetter (fromCharCode (65 + k))"
proof -
  assume a: "0 \<le> k" "k < 26"
  have "(of_char (char_of (65 + k)) :: int) = (65 + k) mod 256"
    by (simp add: of_char_of)
  with a have e: "(of_char (char_of (65 + k)) :: int) = 65 + k" by simp
  have "int (of_char (char_of (65 + k)) :: nat) = (of_char (char_of (65 + k)) :: int)"
    by (simp add: of_char_def)
  with e a show ?thesis
    unfolding isUpperLetter_def fromCharCode_def by linarith
qed

lemma columnNumber_snoc: "columnNumber (s @ [c]) = columnNumber s * 26 + letterValue c"
  by (simp add: columnNumber_def)

lemma columnNumber_getColumnLetter:
  "0 \<le> col \<Longrightarrow> col \<le> 2 ^ 53 \<Longrightarrow> columnNumber (getColumnLetter col) = col"
proof (induction "nat col" arbitrary: col rule: less_induct)
  case less
  show ?case
  proof (cases "col > 0")
    case True
    let ?q = "(col - 1) div 26" and ?r = "(col - 1) mod 26"
    have q: "0 \<le> ?q" "nat ?q < nat col" "?q \<le> 2 ^ 53" using True less.prems(2) by auto
    have r: "0 \<le> ?r" "?r < 26" by auto
    have "columnNumber (getColumnLetter col) = columnNumber (getColumnLetter ?q) * 26 + (?r + 1)"
      using r
      by (simp add: getColumnLetter_step [OF True less.prems(2)] columnNumber_snoc
          letterValue_fromCharCode)
    also have "columnNumber (getColumnLetter ?q) = ?q"
      using less.hyps [OF q(2) q(1) q(3)] .
    finally show ?thesis by simp
  next
    case False
    with less.prems have "col = 0" by simp
    then show ?thesis by (simp add: getColumnLetter_nonpos columnNumber_def)
  qed
qed

lemma getColumnLetter_upper: "\<forall>c \<in> set (getColumnLetter col). isUpperLetter c"
proof (induction "nat col" arbitrary: col rule: less_induct)
  case less
  show ?case
  proof (cases "col > 0")
    case True
    define col1 where "col1 = \<lfloor>toDouble (of_int col - 1)\<rfloor>"
    define q where "q = \<lfloor>toDouble (of_int col1 / 26)\<rfloor>"
    have q: "nat q < nat col" using True step_decreases [of col] by (simp add: q_def col1_def)
    have r: "0 \<le> col1 mod 26" "col1 mod 26 < 26" by auto
    show ?thesis
      using less.hyps [OF q] isUpperLetter_fromCharCode [OF r]
      by (simp add: getColumnLetter_double_step [OF True] q_def col1_def)
  next
    case False
    then show ?thesis by (simp add: getColumnLetter_nonpos)
  qed
qed

lemma getColumnLetter_single:
  "1 \<le> col \<Longrightarrow> col \<le> 26 \<Longrightarrow> getColumnLetter col = [fromCharCode (64 + col)]"
proof -
  assume a: "1 \<le> col" "col \<le> 26"
  then have "(col - 1) div 26 = 0" "(col - 1) mod 26 = col - 1" by auto
  moreover have "col \<le> 2 ^ 53" using a(2) by simp
  ultimately show ?thesis
    using a by (simp add: getColumnLetter_step getColumnLetter_nonpos)
qed

text \<open>
  Claim C7, as the code has it. For every column number \<open>n\<close> from 1 to \<open>2^53\<close>,
  \<open>getColumnLetter\<close> is the base-26 encoding with carry: read back as base-26 digits
  \<open>A\<close> = 1 to \<open>Z\<close> = 26 its letters give \<open>n\<close>, they are capital letters, and the last one is
  \<open>chr(65 + (n - 1) % 26)\<close> after the letters of \<open>(n - 1) div 26\<close>. The labels written with
  \<open>String.fromCharCode(64 + column)\<close> agree with it for the columns 1 to 26, the columns
  the grid has.
\<close>

theorem getColumnLetter_base26:
  assumes "1 \<le> n" and "n \<le> 2 ^ 53"
  shows "columnNumber (getColumnLetter n) = n
         \<and> (\<forall>c\<in>set (getColumnLetter n). isUpperLetter c)
         \<and> getColumnLetter n
             = getColumnLetter ((n - 1) div 26) @ [fromCharCode (65 + (n - 1) mod 26)]
         \<and> (n \<le> 26 \<longrightarrow> cellLabelLetter n = getColumnLetter n)"
  using assms columnNumber_getColumnLetter [of n] getColumnLetter_upper [of n]
    getColumnLetter_step [of n] getColumnLetter_single [of n]
  by (simp add: cellLabelLetter_def)

lemma getColumnLetter_27: "getColumnLetter 27 = ''AA''"
  by code_simp

lemma getColumnLetter_26: "getColumnLetter 26 = ''Z''"
  by code_simp

text \<open>The theorem at column 27 (\<open>AA\<close>, one carry) and at column 26 (\<open>Z\<close>, both renderings).\<close>

theorem getColumnLetter_base26_witness:
  "(1::int) \<le> 27 \<and> (27::int) \<le> 2 ^ 53 \<and> getColumnLetter 27 = ''AA'' \<and> columnNumber ''AA'' = 27
   \<and> isUpperLetter (CHR ''A'')
   \<and> (1::int) \<le> 26 \<and> (26::int) \<le> 26 \<and> getColumnLetter 26 = ''Z'' \<and> cellLabelLetter 26 = ''Z''
   \<and> getColumnLetter 1 = ''A''"
proof -
  have a: "getColumnLetter 1 = ''A''" by code_simp
  have h27: "(1::int) \<le> 27" "(27::int) \<le> 2 ^ 53"
    and h26: "(1::int) \<le> 26" "(26::int) \<le> 2 ^ 53" by simp_all
  have "columnNumber (getColumnLetter 27) = 27 \<and> (\<forall>c\<in>set (getColumnLetter 27). isUpperLetter c)"
    using getColumnLetter_base26 [OF h27] by blast
  then have "columnNumber ''AA'' = 27" "isUpperLetter (CHR ''A'')"
    by (simp_all add: getColumnLetter_27)
  moreover have "cellLabelLetter 26 = getColumnLetter 26"
    using getColumnLetter_base26 [OF h26] by simp
  then have "cellLabelLetter 26 = ''Z''"
    by (simp add: getColumnLetter_26)
  ultimately show ?thesis using a by (simp add: getColumnLetter_27 getColumnLetter_26)
qed

text \<open>
  C7 as stated fails in two places. At column 27 \<open>String.fromCharCode(64 + 27)\<close> is an
  opening bracket, not \<open>AA\<close>. And \<open>getColumnLetter\<close> itself is the encoding only up to
  \<open>2^53\<close>: at \<open>2^53 + 2\<close> (a double) \<open>col--\<close> rounds to \<open>2^53\<close>, and the letters returned are
  those of column \<open>2^53 + 1\<close>.
\<close>

theorem cellLabelLetter_27_counterexample:
  "getColumnLetter 27 = ''AA'' \<and> cellLabelLetter 27 = ''['' \<and> cellLabelLetter 27 \<noteq> getColumnLetter 27
   \<and> getColumnLetter (2 ^ 53 + 2) = ''BKTXHSOGHKKG''
   \<and> columnNumber ''BKTXHSOGHKKG'' = 2 ^ 53 + 1"
proof -
  have "cellLabelLetter 27 = ''[''" by code_simp
  moreover have "getColumnLetter (2 ^ 53 + 2) = ''BKTXHSOGHKKG''" by code_simp
  moreover have "columnNumber ''BKTXHSOGHKKG'' = 2 ^ 53 + 1" by code_simp
  ultimately show ?thesis by (simp add: getColumnLetter_27)
qed

subsection \<open>Properties of the cell store\<close>

lemma findIndex_Some_iff:
  "findIndex P xs = Some i \<longleftrightarrow> i < length xs \<and> P (xs ! i) \<and> (\<forall>j<i. \<not> P (xs ! j))"
proof (induction xs arbitrary: i)
  case Nil
  then show ?case by simp
next
  case (Cons x xs)
  show ?case
  proof (cases "P x")
    case True
    then show ?thesis by (cases i) auto
  next
    case False
    show ?thesis
    proof (cases i)
      case 0
      with False show ?thesis by auto
    next
      case (Suc k)
      have "(\<forall>j<Suc k. \<not> P ((x # xs) ! j)) \<longleftrightarrow> (\<forall>j<k. \<not> P (xs ! j))"
        using False by (auto simp: less_Suc_eq_0_disj)
      with False Suc Cons.IH [of k] show ?thesis by auto
    qed
  qed
qed

lemma findIndex_None_iff: "findIndex P xs = None \<longleftrightarrow> (\<forall>x\<in>set xs. \<not> P x)"
  by (induction xs) auto

lemma findIndex_distinct_key:
  assumes "distinct (map f xs)" and "i < length xs"
  shows "findIndex (\<lambda>c. f c = f (xs ! i)) xs = Some i"
proof -
  have "\<forall>j<i. f (xs ! j) \<noteq> f (xs ! i)"
  proof (intro allI impI)
    fix j assume "j < i"
    then have "j < length (map f xs)" "i < length (map f xs)" "j \<noteq> i"
      using assms(2) by auto
    with nth_eq_iff_index_eq [OF assms(1), of j i]
    show "f (xs ! j) \<noteq> f (xs ! i)" by simp
  qed
  with assms(2) show ?thesis by (simp add: findIndex_Some_iff)
qed







lemma atPosition_position: "atPosition sid r col c \<longleftrightarrow> position c = (sid, r, col)"
  by (auto simp: atPosition_def position_def)

lemma getCell_None_iff:
  "getCell st sid r col = None \<longleftrightarrow> (sid, r, col) \<notin> set (map position (data_cells st))"
  by (force simp: getCell_def find_None_iff atPosition_position image_iff)

lemma getCell_Some_index:
  assumes "getCell st sid r col = Some ex"
  shows "\<exists>i<length (data_cells st). data_cells st ! i = ex \<and> atPosition sid r col ex
           \<and> (\<forall>j<i. \<not> atPosition sid r col (data_cells st ! j))"
  using assms unfolding getCell_def find_Some_iff by blast

lemma position_mergeCell: "keepsPosition u \<Longrightarrow> position (mergeCell now c u) = position c"
  by (simp add: keepsPosition_def mergeCell_def position_def)

lemma id_mergeCell: "upd_id u = None \<Longrightarrow> id' (mergeCell now c u) = id' c"
  by (simp add: mergeCell_def)

text \<open>The two ways a call of \<open>updateCellByPosition\<close> goes; it never fails.\<close>

lemma updateCellByPosition_create:
  assumes "getCell st sid r col = None"
  shows "updateCellByPosition now st sid r col u
           = Inr (st\<lparr> data_cells := data_cells st @ [createdCell now st sid r col u],
                       counters_cells := counters_cells st + 1 \<rparr>,
                  createdCell now st sid r col u)"
  using assms by (simp add: updateCellByPosition_def createCell_def createdCell_def Let_def)

lemma updateCellByPosition_update:
  assumes "getCell st sid r col = Some ex"
  shows "\<exists>i<length (data_cells st).
           findIndex (\<lambda>c. id' c = id' ex) (data_cells st) = Some i
           \<and> updateCellByPosition now st sid r col u
               = Inr (st\<lparr> data_cells := (data_cells st)[i := mergeCell now (data_cells st ! i) u] \<rparr>,
                      mergeCell now (data_cells st ! i) u)"
proof -
  from getCell_Some_index [OF assms] have "ex \<in> set (data_cells st)"
    by (auto simp: in_set_conv_nth)
  then have "findIndex (\<lambda>c. id' c = id' ex) (data_cells st) \<noteq> None"
    by (auto simp: findIndex_None_iff)
  then obtain i where i: "findIndex (\<lambda>c. id' c = id' ex) (data_cells st) = Some i" by blast
  then have "i < length (data_cells st)" by (simp add: findIndex_Some_iff)
  with i assms show ?thesis
    by (simp add: updateCellByPosition_def updateCell_def Let_def)
qed

lemma updateCellByPosition_existing:
  assumes g: "getCell st sid r col = Some ex"
      and ids: "distinct (map id' (data_cells st))"
  shows "\<exists>i<length (data_cells st). data_cells st ! i = ex
           \<and> (\<forall>j<i. \<not> atPosition sid r col (data_cells st ! j))
           \<and> updateCellByPosition now st sid r col u
               = Inr (st\<lparr> data_cells := (data_cells st)[i := mergeCell now ex u] \<rparr>,
                      mergeCell now ex u)"
proof -
  from getCell_Some_index [OF g] obtain i where
    i: "i < length (data_cells st)" "data_cells st ! i = ex"
       "\<forall>j<i. \<not> atPosition sid r col (data_cells st ! j)"
    by blast
  have "findIndex (\<lambda>c. id' c = id' ex) (data_cells st) = Some i"
    using findIndex_distinct_key [OF ids i(1)] i(2) by simp
  then have "updateCellByPosition now st sid r col u
        = Inr (st\<lparr> data_cells := (data_cells st)[i := mergeCell now ex u] \<rparr>, mergeCell now ex u)"
    using g i(2) by (simp add: updateCellByPosition_def updateCell_def Let_def)
  with i show ?thesis by blast
qed


text \<open>The positions and the ids of the cells after a call.\<close>

lemma positions_after_write:
  assumes "keepsPosition u" and "updateCellByPosition now st sid r col u = Inr (st', cell)"
  shows "map position (data_cells st')
           = map position (data_cells st)
               @ (case getCell st sid r col of None \<Rightarrow> [(sid, r, col)] | Some ex \<Rightarrow> [])"
proof (cases "getCell st sid r col")
  case None
  with assms(2) updateCellByPosition_create [OF None, of now u] show ?thesis
    by (auto simp: createdCell_def position_def)
next
  case (Some ex)
  from updateCellByPosition_update [OF Some, of now u] assms(2) obtain i where
    i: "i < length (data_cells st)"
       "data_cells st' = (data_cells st)[i := mergeCell now (data_cells st ! i) u]"
    by auto
  have "map position (data_cells st')
      = (map position (data_cells st))[i := position (data_cells st ! i)]"
    by (simp add: i(2) map_update position_mergeCell [OF assms(1)])
  also have "\<dots> = map position (data_cells st)"
    using i(1) by (metis list_update_id nth_map)
  finally show ?thesis using Some by simp
qed

lemma ids_after_write:
  assumes "upd_id u = None" and "updateCellByPosition now st sid r col u = Inr (st', cell)"
  shows "map id' (data_cells st')
           = map id' (data_cells st)
               @ (case getCell st sid r col of None \<Rightarrow> [counters_cells st] | Some ex \<Rightarrow> [])"
    and "counters_cells st \<le> counters_cells st'"
    and "getCell st sid r col = None \<Longrightarrow> counters_cells st' = counters_cells st + 1"
proof -
  show "map id' (data_cells st')
           = map id' (data_cells st)
               @ (case getCell st sid r col of None \<Rightarrow> [counters_cells st] | Some ex \<Rightarrow> [])"
  proof (cases "getCell st sid r col")
    case None
    with assms(2) updateCellByPosition_create [OF None, of now u] show ?thesis
      by (auto simp: createdCell_def)
  next
    case (Some ex)
    from updateCellByPosition_update [OF Some, of now u] assms(2) obtain i where
      i: "i < length (data_cells st)"
         "data_cells st' = (data_cells st)[i := mergeCell now (data_cells st ! i) u]"
      by auto
    have "map id' (data_cells st') = (map id' (data_cells st))[i := id' (data_cells st ! i)]"
      by (simp add: i(2) map_update id_mergeCell [OF assms(1)])
    also have "\<dots> = map id' (data_cells st)"
      using i(1) by (metis list_update_id nth_map)
    finally show ?thesis using Some by simp
  qed
  show "counters_cells st \<le> counters_cells st'"
  proof (cases "getCell st sid r col")
    case None
    with assms(2) updateCellByPosition_create [OF None, of now u] show ?thesis by auto
  next
    case (Some ex)
    from updateCellByPosition_update [OF Some, of now u] assms(2) show ?thesis by auto
  qed
  show "counters_cells st' = counters_cells st + 1" if "getCell st sid r col = None"
    using assms(2) updateCellByPosition_create [OF that, of now u] by auto
qed

lemma uniquePositions_write:
  assumes "uniquePositions (data_cells st)" and "keepsPosition u"
      and "updateCellByPosition now st sid r col u = Inr (st', cell)"
  shows "uniquePositions (data_cells st')"
  using assms(1) getCell_None_iff [of st sid r col]
  unfolding uniquePositions_def positions_after_write [OF assms(2,3)]
  by (cases "getCell st sid r col") auto

lemma idsFresh_write:
  assumes "idsFresh st" and "upd_id u = None"
      and "updateCellByPosition now st sid r col u = Inr (st', cell)"
  shows "idsFresh st'"
proof -
  note m = ids_after_write [OF assms(2,3)]
  have old: "distinct (map id' (data_cells st))" "\<forall>i\<in>set (map id' (data_cells st)). i < counters_cells st"
    using assms(1) by (auto simp: idsFresh_def)
  have "distinct (map id' (data_cells st'))"
    unfolding m(1) using old by (cases "getCell st sid r col") auto
  moreover have "\<forall>i\<in>set (map id' (data_cells st')). i < counters_cells st'"
  proof (cases "getCell st sid r col")
    case None
    with m(3) old(2) show ?thesis unfolding m(1) by auto
  next
    case (Some ex)
    with m(2) old(2) show ?thesis unfolding m(1) by auto
  qed
  ultimately show ?thesis by (auto simp: idsFresh_def)
qed






text \<open>The store of a first start.\<close>

lemma sample_cells_value:
  "data_cells (initializeSampleData now sheet_id freshStorage) =
     map (\<lambda>(i, r, col, v, dt, f).
            \<lparr> id' = i, sheetId = sheet_id, row = r, column = col, value' = Some v, formula = f,
              dataType = dt, formatting = Some ''{}'', createdAt = now, updatedAt = now,
              calculated_value = None \<rparr>)
       [(1, 1, 1, ''Revenue'', ''text'', None),
        (2, 1, 2, ''50000'', ''number'', None),
        (3, 1, 3, ''55000'', ''number'', None),
        (4, 2, 1, ''Expenses'', ''text'', None),
        (5, 2, 2, ''35000'', ''number'', None),
        (6, 2, 3, ''38000'', ''number'', None),
        (7, 3, 1, ''Profit'', ''text'', None),
        (8, 3, 2, ''=B1-B2'', ''formula'', Some ''=B1-B2''),
        (9, 3, 3, ''=C1-C2'', ''formula'', Some ''=C1-C2'')]"
  by (simp add: initializeSampleData_def sampleCells_def pushSampleCell_def freshStorage_def)

lemma sample_counter: "counters_cells (initializeSampleData now sheet_id freshStorage) = 10"
  by (simp add: initializeSampleData_def sampleCells_def pushSampleCell_def freshStorage_def)

lemma sample_uniquePositions:
  "uniquePositions (data_cells (initializeSampleData now sheet_id freshStorage))"
  unfolding sample_cells_value by (simp add: uniquePositions_def position_def)

lemma sample_idsFresh: "idsFresh (initializeSampleData now sheet_id freshStorage)"
  unfolding idsFresh_def sample_counter sample_cells_value by simp

subsection \<open>One cell per position\<close>




subsection \<open>Reading a position before and after a write\<close>






subsection \<open>The two states of a cell\<close>

lemma requestBody_keepsIdentity: "keepsIdentity (requestBody numeric v f)"
  by (simp add: keepsIdentity_def keepsPosition_def requestBody_def)

lemma cellStateOk_formula_write:
  assumes "startsWithEq v" and "calculated_value c = None"
  shows "cellStateOk (mergeCell now c (requestBody numeric v f))"
  using assms
  by (simp add: cellStateOk_def isFormulaCell_def mergeCell_def requestBody_def)

lemma cellStateOk_literal_write:
  assumes "\<not> startsWithEq v" and "formula c = None" and "calculated_value c = None"
  shows "cellStateOk (mergeCell now c (requestBody numeric v None))"
  using assms
  by (simp add: cellStateOk_def isLiteralCell_def mergeCell_def requestBody_def)

lemma cellStateOk_created:
  assumes "startsWithEq v \<or> f = None"
  shows "cellStateOk (createdCell now st sid r col (requestBody numeric v f))"
  using assms
  by (auto simp: cellStateOk_def isLiteralCell_def isFormulaCell_def createdCell_def
      requestBody_def readKey_def)

lemma write_ok:
  assumes inv: "\<forall>c\<in>set (data_cells st). cellStateOk c"
      and ids: "idsFresh st"
      and settled: "settledWrite st (Some sid) r col v f"
      and res: "updateCellByPosition now st sid r col (requestBody numeric v f) = Inr (st', cell)"
  shows "\<forall>c\<in>set (data_cells st'). cellStateOk c"
proof (cases "getCell st sid r col")
  case None
  from settled None have "startsWithEq v \<or> f = None" by (auto simp: settledWrite_def)
  then have "cellStateOk (createdCell now st sid r col (requestBody numeric v f))"
    by (rule cellStateOk_created)
  with updateCellByPosition_create [OF None, of now "requestBody numeric v f"] res inv
  show ?thesis by auto
next
  case (Some ex)
  from ids have "distinct (map id' (data_cells st))" by (simp add: idsFresh_def)
  from updateCellByPosition_existing [OF Some this, of now "requestBody numeric v f"] res
  obtain i where
    i: "i < length (data_cells st)" "data_cells st ! i = ex"
       "data_cells st' = (data_cells st)[i := mergeCell now ex (requestBody numeric v f)]"
    by auto
  have ex: "calculated_value ex = None"
    using inv i(1,2) by (auto simp: cellStateOk_def)
  have new: "cellStateOk (mergeCell now ex (requestBody numeric v f))"
  proof (cases "startsWithEq v")
    case True
    then show ?thesis using ex by (rule cellStateOk_formula_write)
  next
    case False
    with settled Some have "f = None" "formula ex = None" by (simp_all add: settledWrite_def)
    with False ex show ?thesis by (simp add: cellStateOk_literal_write)
  qed
  have "set (data_cells st') \<subseteq> insert (mergeCell now ex (requestBody numeric v f)) (set (data_cells st))"
    unfolding i(3) by (rule set_update_subset_insert)
  with inv new show ?thesis by auto
qed

lemma handleCellUpdate_cases:
  "handleCellUpdate numeric now st activeSheet r col v f = st
   \<or> (\<exists>sid cell. activeSheet = Some sid
         \<and> updateCellByPosition now st sid r col (requestBody numeric v f)
             = Inr (handleCellUpdate numeric now st activeSheet r col v f, cell))"
  by (auto simp: handleCellUpdate_def split: option.splits sum.splits)

lemma handleCellUpdate_ok:
  assumes inv: "idsFresh st \<and> uniquePositions (data_cells st)
                \<and> (\<forall>c\<in>set (data_cells st). cellStateOk c)"
      and settled: "settledWrite st activeSheet r col v f"
  shows "idsFresh (handleCellUpdate numeric now st activeSheet r col v f)
         \<and> uniquePositions (data_cells (handleCellUpdate numeric now st activeSheet r col v f))
         \<and> (\<forall>c\<in>set (data_cells (handleCellUpdate numeric now st activeSheet r col v f)).
               cellStateOk c)"
proof -
  let ?st' = "handleCellUpdate numeric now st activeSheet r col v f"
  from handleCellUpdate_cases [of numeric now st activeSheet r col v f]
  show ?thesis
  proof
    assume "?st' = st"
    with inv show ?thesis by simp
  next
    assume "\<exists>sid cell. activeSheet = Some sid
         \<and> updateCellByPosition now st sid r col (requestBody numeric v f) = Inr (?st', cell)"
    then obtain sid cell where
      a: "activeSheet = Some sid"
      and res: "updateCellByPosition now st sid r col (requestBody numeric v f) = Inr (?st', cell)"
      by blast
    note k = requestBody_keepsIdentity [of numeric v f]
    from inv k res have "idsFresh ?st'"
      by (auto intro: idsFresh_write simp: keepsIdentity_def)
    moreover from inv k res have "uniquePositions (data_cells ?st')"
      by (auto intro: uniquePositions_write simp: keepsIdentity_def)
    moreover have "\<forall>c\<in>set (data_cells ?st'). cellStateOk c"
    proof (rule write_ok [OF _ _ _ res])
      show "\<forall>c\<in>set (data_cells st). cellStateOk c" using inv by simp
      show "idsFresh st" using inv by simp
      show "settledWrite st (Some sid) r col v f" using settled a by simp
    qed
    ultimately show ?thesis by simp
  qed
qed

lemma sample_ok:
  "\<forall>c\<in>set (data_cells (initializeSampleData now sheet_id freshStorage)). cellStateOk c"
  unfolding sample_cells_value
  by (simp add: cellStateOk_def isLiteralCell_def isFormulaCell_def startsWithEq_def)

lemma reachable_ok:
  "reachable numeric st \<Longrightarrow>
   idsFresh st \<and> uniquePositions (data_cells st) \<and> (\<forall>c\<in>set (data_cells st). cellStateOk c)"
proof (induction rule: reachable.induct)
  case (reachable_init now)
  show ?case by (simp add: sample_ok sample_idsFresh sample_uniquePositions)
next
  case (reachable_write st activeSheet r col v f now)
  from reachable_write.IH reachable_write.hyps(2) show ?case by (rule handleCellUpdate_ok)
qed

lemma literal_formula_exclusive: "\<not> (isLiteralCell c \<and> isFormulaCell c)"
  by (auto simp: isLiteralCell_def isFormulaCell_def)

lemma find_filter: "find P (filter Q xs) = find (\<lambda>x. Q x \<and> P x) xs"
  by (induction xs) auto

lemma find_distinct_key:
  "distinct (map f xs) \<Longrightarrow> x \<in> set xs \<Longrightarrow> find (\<lambda>c. f c = f x) xs = Some x"
proof (induction xs)
  case Nil
  then show ?case by simp
next
  case (Cons a xs)
  show ?case
  proof (cases "a = x")
    case True
    then show ?thesis by simp
  next
    case False
    with Cons.prems have x: "x \<in> set xs" by simp
    with Cons.prems(1) have "f a \<noteq> f x" by auto
    with Cons.IH x Cons.prems(1) show ?thesis by simp
  qed
qed

lemma getCellValue_stored:
  assumes "uniquePositions (data_cells st)" and "c \<in> set (data_cells st)"
      and "calculated_value c = None"
  shows "getCellValue (Some (getCellsBySheet st (sheetId c))) (row c) (column c)
           = (case value' c of None \<Rightarrow> [] | Some v \<Rightarrow> v)"
proof -
  have "(\<lambda>x. sheetId x = sheetId c \<and> row x = row c \<and> column x = column c)
          = (\<lambda>x. position x = position c)"
    by (auto simp: position_def fun_eq_iff)
  then have "find (\<lambda>x. row x = row c \<and> column x = column c) (getCellsBySheet st (sheetId c))
          = find (\<lambda>x. position x = position c) (data_cells st)"
    by (simp add: getCellsBySheet_def find_filter)
  also have "\<dots> = Some c"
    using assms(1,2) unfolding uniquePositions_def by (rule find_distinct_key)
  finally show ?thesis using assms(3) by (simp add: getCellValue_def)
qed

text \<open>
  Claim C6, as the code has it. Every cell of a store reached from the sample data through
  \<open>handleCellUpdate\<close>, by writes that are a formula or put a literal without a formula
  argument on a position that holds no formula, is in exactly one of two states: it has no
  formula and holds a literal (\<open>dataType\<close> \<open>text\<close> or \<open>number\<close>, a value that does not start
  with \<open>=\<close>), or it has a formula (\<open>dataType\<close> \<open>formula\<close>, and the formula text, which starts
  with \<open>=\<close>, also as its value). No such cell carries a cached \<open>calculated_value\<close> (the
  storage never writes one, and the source has no error field), so \<open>getCellValue\<close>, on the
  cells of the sheet, shows the stored value, for a formula cell the formula text.
\<close>

theorem reachable_cell_states:
  assumes "reachable numeric st" and "c \<in> set (data_cells st)"
  shows "(isLiteralCell c \<or> isFormulaCell c) \<and> \<not> (isLiteralCell c \<and> isFormulaCell c)
         \<and> (isLiteralCell c \<longleftrightarrow> formula c = None)
         \<and> calculated_value c = None
         \<and> getCellValue (Some (getCellsBySheet st (sheetId c))) (row c) (column c)
             = (case value' c of None \<Rightarrow> [] | Some v \<Rightarrow> v)"
proof -
  from reachable_ok [OF assms(1)] assms(2)
  have ok: "cellStateOk c" and u: "uniquePositions (data_cells st)" by blast+
  then have n: "calculated_value c = None" by (simp add: cellStateOk_def)
  have "isLiteralCell c \<longleftrightarrow> formula c = None"
    using ok by (auto simp: cellStateOk_def isLiteralCell_def isFormulaCell_def)
  with ok n literal_formula_exclusive [of c] getCellValue_stored [OF u assms(2) n]
  show ?thesis by (simp add: cellStateOk_def)
qed

text \<open>
  The theorem at the store reached by writing the formula \<open>=A1\<close> to A5 of the sample
  sheet, and its cells A5 and B1.
\<close>

theorem reachable_cell_states_witness:
  "reachable (\<lambda>v. True) (handleCellUpdate (\<lambda>v. True) 9 sampleStore (Some 1) 5 1 ''=A1'' None)
   \<and> map value' (data_cells (handleCellUpdate (\<lambda>v. True) 9 sampleStore (Some 1) 5 1 ''=A1'' None))
       = [Some ''Revenue'', Some ''50000'', Some ''55000'', Some ''Expenses'', Some ''35000'',
          Some ''38000'', Some ''Profit'', Some ''=B1-B2'', Some ''=C1-C2'', Some ''=A1'']
   \<and> isFormulaCell (data_cells (handleCellUpdate (\<lambda>v. True) 9 sampleStore (Some 1) 5 1 ''=A1'' None) ! 9)
   \<and> isLiteralCell (data_cells (handleCellUpdate (\<lambda>v. True) 9 sampleStore (Some 1) 5 1 ''=A1'' None) ! 1)
   \<and> getCellValue
         (Some (getCellsBySheet (handleCellUpdate (\<lambda>v. True) 9 sampleStore (Some 1) 5 1 ''=A1'' None) 1))
         5 1 = ''=A1''
   \<and> getCellValue
         (Some (getCellsBySheet (handleCellUpdate (\<lambda>v. True) 9 sampleStore (Some 1) 5 1 ''=A1'' None) 1))
         1 2 = ''50000''"
proof -
  define st where "st = handleCellUpdate (\<lambda>v. True) 9 sampleStore (Some 1) 5 1 ''=A1'' None"
  have cells: "data_cells st
      = data_cells sampleStore
          @ [\<lparr> id' = 10, sheetId = 1, row = 5, column = 1, value' = Some ''=A1'',
               formula = Some ''=A1'', dataType = ''formula'', formatting = None,
               createdAt = 9, updatedAt = 9, calculated_value = None \<rparr>]"
    by (simp add: st_def handleCellUpdate_def updateCellByPosition_def getCell_def
        sampleStore_def sample_cells_value sample_counter atPosition_def createCell_def
        requestBody_def startsWithEq_def readKey_def Let_def)
  have r: "reachable (\<lambda>v. True) st"
    unfolding st_def sampleStore_def
    by (rule reachable_write [OF reachable_init]) (simp add: settledWrite_def startsWithEq_def)
  have m: "data_cells st ! 9 \<in> set (data_cells st)" "data_cells st ! 1 \<in> set (data_cells st)"
    by (simp_all add: cells sampleStore_def sample_cells_value)
  have f: "formula (data_cells st ! 9) = Some ''=A1''" "sheetId (data_cells st ! 9) = 1"
      "row (data_cells st ! 9) = 5" "column (data_cells st ! 9) = 1"
      "value' (data_cells st ! 9) = Some ''=A1''"
    and l: "formula (data_cells st ! 1) = None" "sheetId (data_cells st ! 1) = 1"
      "row (data_cells st ! 1) = 1" "column (data_cells st ! 1) = 2"
      "value' (data_cells st ! 1) = Some ''50000''"
    by (simp_all add: cells sampleStore_def sample_cells_value nth_append)
  have v: "map value' (data_cells st)
       = [Some ''Revenue'', Some ''50000'', Some ''55000'', Some ''Expenses'', Some ''35000'',
          Some ''38000'', Some ''Profit'', Some ''=B1-B2'', Some ''=C1-C2'', Some ''=A1'']"
    by (simp add: cells sampleStore_def sample_cells_value)
  from reachable_cell_states [OF r m(1)] f
  have a: "isFormulaCell (data_cells st ! 9)"
          "getCellValue (Some (getCellsBySheet st 1)) 5 1 = ''=A1''"
    by auto
  from reachable_cell_states [OF r m(2)] l
  have b: "isLiteralCell (data_cells st ! 1)"
          "getCellValue (Some (getCellsBySheet st 1)) 1 2 = ''50000''"
    by auto
  from r v a b show ?thesis unfolding st_def by simp
qed

text \<open>
  C6 as stated fails at the sample store, the first state of the storage: its cell B3 is
  a formula cell with no cached calculated value (and no error: no cell has one). The
  writes the theorem leaves out put a cell in neither state: the grid's write of \<open>5\<close> over
  B3 leaves a number with the formula \<open>=B1-B2\<close>, its write of \<open>5\<close> with a formula argument
  stores that formula with the number, and a body sent to the route without the grid
  (here with a \<open>dataType\<close> and nothing else) is stored as it is.
\<close>

theorem sample_formula_cell_uncached_counterexample:
  "reachable (\<lambda>v. True) sampleStore
   \<and> dataType (data_cells sampleStore ! 7) = ''formula''
   \<and> formula (data_cells sampleStore ! 7) = Some ''=B1-B2''
   \<and> calculated_value (data_cells sampleStore ! 7) = None
   \<and> (case getCell (handleCellUpdate (\<lambda>v. True) 9 sampleStore (Some 1) 3 2 ''5'' None) 1 3 2 of
         None \<Rightarrow> False
       | Some c \<Rightarrow> value' c = Some ''5'' \<and> dataType c = ''number'' \<and> formula c = Some ''=B1-B2''
                   \<and> \<not> isLiteralCell c \<and> \<not> isFormulaCell c)
   \<and> (case getCell (handleCellUpdate (\<lambda>v. True) 9 sampleStore (Some 1) 5 1 ''5'' (Some ''=A1'')) 1 5 1 of
         None \<Rightarrow> False
       | Some c \<Rightarrow> value' c = Some ''5'' \<and> dataType c = ''number'' \<and> formula c = Some ''=A1''
                   \<and> \<not> isLiteralCell c \<and> \<not> isFormulaCell c)
   \<and> (case updateCellByPosition 9 sampleStore 1 5 1 (noUpdates\<lparr> upd_dataType := Some ''formula'' \<rparr>) of
         Inl e \<Rightarrow> False
       | Inr (st', c) \<Rightarrow> value' c = None \<and> dataType c = ''formula'' \<and> formula c = None
                          \<and> \<not> isLiteralCell c \<and> \<not> isFormulaCell c)"
proof -
  have "reachable (\<lambda>v. True) sampleStore"
    unfolding sampleStore_def by (rule reachable_init)
  then show ?thesis
    by (simp add: sampleStore_def sample_cells_value sample_counter handleCellUpdate_def
        updateCellByPosition_def getCell_def atPosition_def updateCell_def createCell_def
        mergeCell_def requestBody_def startsWithEq_def readKey_def noUpdates_def
        isLiteralCell_def isFormulaCell_def Let_def)
qed

subsection \<open>Evaluating the tokenizer\<close>

text \<open>The definitions the simplifier unfolds to run the tokenizer on a given text.\<close>

lemmas lexer_defs = lexToken_def lexNumber_def lexExponent_def lexOperator_def isDigit_def
  isSpace_def isLetter_def isWordChar_def digitsValue_def cellOfWord_def columnOfLetters_def
  toUpper_def Let_def

subsection \<open>The parsers consume their input\<close>

text \<open>
  A parser that succeeds returns fewer tokens than it was given (the continuation of a
  binary level, which may read nothing, no more), so the tests on the lengths in the
  parsers never fail.
\<close>

lemma parse_progress:
  "\<And>e rest. parsePrimary ts = Inr (e, rest) \<Longrightarrow> length rest < length ts"
  "\<And>e rest. parseUnary ts1 = Inr (e, rest) \<Longrightarrow> length rest < length ts1"
  "\<And>e rest. parsePower ts2 = Inr (e, rest) \<Longrightarrow> length rest < length ts2"
  "\<And>e rest. parseOperand n3 ts3 = Inr (e, rest) \<Longrightarrow> length rest < length ts3"
  "\<And>e rest. parseLevelRest n4 lhs ts4 = Inr (e, rest) \<Longrightarrow> length rest \<le> length ts4"
  "\<And>e rest. parseLevel n5 ts5 = Inr (e, rest) \<Longrightarrow> length rest < length ts5"
  "\<And>args rest. parseArguments ts6 = Inr (args, rest) \<Longrightarrow> length rest < length ts6"
proof (induction ts and ts1 and ts2 and n3 ts3 and n4 lhs ts4 and n5 ts5 and ts6
       rule: parsePrimary_parseUnary_parsePower_parseOperand_parseLevelRest_parseLevel_parseArguments.induct)
  case (1 ts)
  show ?case
  proof (cases ts)
    case Nil
    with "1.prems" show ?thesis by (simp add: parsePrimary.simps)
  next
    case (Cons tok ts')
    show ?thesis
    proof (cases tok)
      case LPAREN
      from "1.prems" Cons LPAREN obtain rest' where
        inner: "parseLevel topLevel ts' = Inr (e, rest')" and r: "rest' = RPAREN # rest"
        by (subst (asm) parsePrimary.simps)
           (auto split: sum.splits list.splits if_splits)
      from "1.IH"(2) [OF Cons LPAREN inner] r Cons show ?thesis by simp
    next
      case (IDENT name)
      show ?thesis
      proof (cases ts')
        case Nil
        with "1.prems" Cons IDENT show ?thesis by (simp add: parsePrimary.simps)
      next
        case c2: (Cons tok' ts'')
        show ?thesis
        proof (cases "tok' = LPAREN")
          case False
          with "1.prems" Cons IDENT c2 show ?thesis by (simp add: parsePrimary.simps)
        next
          case True
          show ?thesis
          proof (cases ts'')
            case Nil
            with "1.prems" Cons IDENT c2 True show ?thesis by (simp add: parsePrimary.simps)
          next
            case c3: (Cons tok'' ts3)
            show ?thesis
            proof (cases "tok'' = RPAREN")
              case r: True
              with "1.prems" Cons IDENT c2 True c3 show ?thesis
                by (subst (asm) parsePrimary.simps) auto
            next
              case nr: False
              from "1.prems" Cons IDENT c2 True c3 nr obtain args where
                a: "parseArguments ts'' = Inr (args, rest)"
                by (subst (asm) parsePrimary.simps) (auto split: sum.splits)
              from "1.IH"(1) [OF Cons IDENT c2 True c3 nr a] Cons c2 show ?thesis by simp
            qed
          qed
        qed
      qed
    qed (use "1.prems" Cons in \<open>auto simp: parsePrimary.simps\<close>)
  qed
next
  case (2 ts)
  show ?case
  proof (cases ts)
    case Nil
    with "2.prems" show ?thesis by (simp add: parseUnary.simps)
  next
    case (Cons tok ts')
    show ?thesis
    proof (cases "tok = OPERATOR OpSub \<or> tok = OPERATOR OpAdd")
      case True
      from "2.prems" Cons True obtain operand where
        u: "parseUnary ts' = Inr (operand, rest)"
        by (subst (asm) parseUnary.simps) (auto split: sum.splits)
      from "2.IH"(1) [OF Cons True u] Cons show ?thesis by simp
    next
      case False
      from "2.prems" Cons False have "parsePrimary ts = Inr (e, rest)"
        by (subst (asm) parseUnary.simps) simp
      with "2.IH"(2) [OF Cons False] show ?thesis by simp
    qed
  qed
next
  case (3 ts)
  from "3.prems" obtain base rest1 where u: "parseUnary ts = Inr (base, rest1)"
    by (subst (asm) parsePower.simps) (auto split: sum.splits)
  from "3.IH"(1) [OF u] have l1: "length rest1 < length ts" .
  show ?case
  proof (cases rest1)
    case Nil
    with "3.prems" u l1 show ?thesis
      by (subst (asm) parsePower.simps) auto
  next
    case (Cons tok rest')
    show ?thesis
    proof (cases "tok = OPERATOR OpPow")
      case True
      have g: "length rest' < length ts" using l1 Cons by simp
      from "3.prems" u Cons True g obtain exponent where
        p: "parsePower rest' = Inr (exponent, rest)"
        by (subst (asm) parsePower.simps) (auto split: sum.splits)
      from "3.IH"(2) [OF u refl Cons True g p] g show ?thesis by simp
    next
      case False
      with "3.prems" u Cons l1 show ?thesis
        by (subst (asm) parsePower.simps) auto
    qed
  qed
next
  case (4 n ts)
  show ?case
  proof (cases n)
    case 0
    with "4.prems" have "parsePower ts = Inr (e, rest)" by (simp add: parseOperand.simps)
    with "4.IH"(1) [OF 0] show ?thesis by simp
  next
    case (Suc m)
    with "4.prems" have "parseLevel m ts = Inr (e, rest)" by (simp add: parseOperand.simps)
    with "4.IH"(2) [OF Suc] show ?thesis by simp
  qed
next
  case (5 n lhs ts)
  show ?case
  proof (cases ts)
    case Nil
    with "5.prems" show ?thesis by (simp add: parseLevelRest.simps)
  next
    case (Cons tok ts')
    show ?thesis
    proof (cases "\<exists>op. tok = OPERATOR op \<and> binaryLevel op = Some n")
      case False
      with "5.prems" Cons have "rest = ts"
        by (subst (asm) parseLevelRest.simps) (auto split: token.splits if_splits)
      then show ?thesis by simp
    next
      case True
      then obtain op where op: "tok = OPERATOR op" "binaryLevel op = Some n" by blast
      from "5.prems" Cons op obtain rhs rest' where
        o: "parseOperand n ts' = Inr (rhs, rest')"
        by (subst (asm) parseLevelRest.simps) (auto split: sum.splits)
      from "5.IH"(1) [OF Cons op o] have l: "length rest' \<le> length ts'" by simp
      from "5.prems" Cons op o l have
        r: "parseLevelRest n (BinaryOp op lhs rhs) rest' = Inr (e, rest)"
        by (subst (asm) parseLevelRest.simps) simp
      from "5.IH"(2) [OF Cons op o refl l r] l Cons show ?thesis by simp
    qed
  qed
next
  case (6 n ts)
  from "6.prems" obtain lhs rest1 where o: "parseOperand n ts = Inr (lhs, rest1)"
    by (subst (asm) parseLevel.simps) (auto split: sum.splits)
  from "6.IH"(1) [OF o] have l: "length rest1 < length ts" .
  then have l': "length rest1 \<le> length ts" by simp
  from "6.prems" o l' have r: "parseLevelRest n lhs rest1 = Inr (e, rest)"
    by (subst (asm) parseLevel.simps) simp
  from "6.IH"(2) [OF o refl l' r] l show ?case by simp
next
  case (7 ts)
  from "7.prems" obtain arg rest1 where a: "parseLevel topLevel ts = Inr (arg, rest1)"
    by (subst (asm) parseArguments.simps) (auto split: sum.splits)
  from "7.IH"(1) [OF a] have l: "length rest1 < length ts" .
  show ?case
  proof (cases rest1)
    case Nil
    with "7.prems" a show ?thesis
      by (subst (asm) parseArguments.simps) simp
  next
    case (Cons tok rest')
    show ?thesis
    proof (cases "tok = RPAREN")
      case True
      with "7.prems" a Cons l show ?thesis
        by (subst (asm) parseArguments.simps) auto
    next
      case False
      have g: "length rest' < length ts" using l Cons by simp
      from "7.prems" a Cons False g obtain args' where
        c: "tok = COMMA" and p: "parseArguments rest' = Inr (args', rest)"
        by (subst (asm) parseArguments.simps) (auto split: sum.splits if_splits)
      from "7.IH"(2) [OF a refl Cons False _ p] c g show ?thesis by simp
    qed
  qed
qed

text \<open>The parsers without the tests on the lengths.\<close>

lemma parsePower_unguarded:
  "parsePower ts =
     (case parseUnary ts of
        Inl e \<Rightarrow> Inl e
      | Inr (base, rest) \<Rightarrow>
          (case rest of
             [] \<Rightarrow> Inr (base, rest)
           | tok # rest' \<Rightarrow>
               if tok = OPERATOR OpPow then
                 (case parsePower rest' of
                    Inl e \<Rightarrow> Inl e
                  | Inr (exponent, rest'') \<Rightarrow> Inr (BinaryOp OpPow base exponent, rest''))
               else Inr (base, rest)))"
proof (cases "parseUnary ts")
  case (Inl e)
  then show ?thesis by (subst parsePower.simps) simp
next
  case (Inr p)
  obtain base rest where p: "p = (base, rest)" by (cases p)
  have "length rest < length ts" using parse_progress(2) Inr p by simp
  then have "\<And>tok rest'. rest = tok # rest' \<Longrightarrow> length rest' < length ts" by auto
  with Inr p show ?thesis
    by (subst parsePower.simps) (auto split: list.splits)
qed

lemma parseLevel_unguarded:
  "parseLevel n ts =
     (case parseOperand n ts of
        Inl e \<Rightarrow> Inl e
      | Inr (lhs, rest) \<Rightarrow> parseLevelRest n lhs rest)"
proof (cases "parseOperand n ts")
  case (Inl e)
  then show ?thesis by (subst parseLevel.simps) simp
next
  case (Inr p)
  obtain lhs rest where p: "p = (lhs, rest)" by (cases p)
  have "length rest < length ts" using parse_progress(4) Inr p by simp
  with Inr p show ?thesis
    by (subst parseLevel.simps) simp
qed

lemma parseLevelRest_unguarded:
  "parseLevelRest n lhs ts =
     (case ts of
        [] \<Rightarrow> Inr (lhs, ts)
      | tok # rest \<Rightarrow>
          (case tok of
             OPERATOR op \<Rightarrow>
               if binaryLevel op = Some n then
                 (case parseOperand n rest of
                    Inl e \<Rightarrow> Inl e
                  | Inr (rhs, rest') \<Rightarrow> parseLevelRest n (BinaryOp op lhs rhs) rest')
               else Inr (lhs, ts)
           | _ \<Rightarrow> Inr (lhs, ts)))"
proof -
  have "length rest' \<le> length rest" if "parseOperand n rest = Inr (rhs, rest')" for rest rhs rest'
    using parse_progress(4) [OF that] by simp
  then show ?thesis
    by (subst parseLevelRest.simps) (auto split: list.splits token.splits sum.splits)
qed

lemma parseArguments_unguarded:
  "parseArguments ts =
     (case parseLevel topLevel ts of
        Inl e \<Rightarrow> Inl e
      | Inr (arg, rest) \<Rightarrow>
          (case rest of
             [] \<Rightarrow> Inl SyntaxError
           | tok # rest' \<Rightarrow>
               if tok = RPAREN then Inr ([arg], rest')
               else if tok = COMMA then
                 (case parseArguments rest' of
                    Inl e \<Rightarrow> Inl e
                  | Inr (args, rest'') \<Rightarrow> Inr (arg # args, rest''))
               else Inl SyntaxError))"
proof (cases "parseLevel topLevel ts")
  case (Inl e)
  then show ?thesis by (subst parseArguments.simps) simp
next
  case (Inr p)
  obtain arg rest where p: "p = (arg, rest)" by (cases p)
  have "length rest < length ts" using parse_progress(6) Inr p by simp
  then have "\<And>tok rest'. rest = tok # rest' \<Longrightarrow> length rest' < length ts" by auto
  with Inr p show ?thesis
    by (subst parseArguments.simps) (auto split: list.splits)
qed

subsection \<open>The tokenizer consumes its input\<close>

text \<open>
  A token is never empty: the text after it is shorter than the text it was read from, so
  the test on the lengths in \<open>tokenize\<close> never fails.
\<close>

lemma lexExponent_length: "length (snd (lexExponent s)) \<le> length s"
proof -
  have d: "length (dropWhile isDigit t) \<le> length t" for t
    by (rule length_dropWhile_le)
  show ?thesis
    using d
    by (auto simp: lexExponent_def le_Suc_eq split: list.splits intro: le_SucI order_trans)
qed

lemma lexNumber_length:
  assumes "isDigit c"
  shows "length (snd (lexNumber (c # t))) \<le> length t"
proof -
  have d: "length (dropWhile isDigit u) \<le> length u" for u
    by (rule length_dropWhile_le)
  let ?afterWhole = "dropWhile isDigit t"
  let ?afterFraction = "(case ?afterWhole of [] \<Rightarrow> []
                         | p # u \<Rightarrow> if p = CHR ''.'' then dropWhile isDigit u else ?afterWhole)"
  have "length ?afterFraction \<le> length ?afterWhole"
    using d by (auto split: list.splits intro: le_SucI)
  then have "length ?afterFraction \<le> length t"
    using d [of t] by simp
  moreover have "snd (lexNumber (c # t)) = snd (lexExponent ?afterFraction)"
    using assms by (simp add: lexNumber_def Let_def)
  ultimately show ?thesis
    using lexExponent_length [of ?afterFraction] by simp
qed

lemma lexString_length: "lexString s = Some (str, rest) \<Longrightarrow> length rest < length s"
proof (induction s arbitrary: str rule: lexString.induct)
  case 1
  then show ?case by simp
next
  case (2 c)
  then show ?case by (simp split: if_splits)
next
  case (3 c d t)
  then show ?case
    by (fastforce split: if_splits)
qed

lemma lexOperator_length: "lexOperator s = Some (tok, rest) \<Longrightarrow> length rest < length s"
  by (auto simp: lexOperator_def split: list.splits if_splits)

lemma lexToken_length:
  assumes "lexToken s = Some (tok, rest)"
  shows "length rest < length s"
proof (cases s)
  case Nil
  with assms show ?thesis by (simp add: lexToken_def)
next
  case (Cons c t)
  have w: "length (dropWhile isWordChar u) \<le> length u" for u
    by (rule length_dropWhile_le)
  consider (digit) "isDigit c"
    | (quote) "\<not> isDigit c" "c = CHR 0x22"
    | (word) "\<not> isDigit c" "c \<noteq> CHR 0x22" "isLetter c \<or> c = CHR ''_''"
    | (other) "\<not> isDigit c" "c \<noteq> CHR 0x22" "\<not> (isLetter c \<or> c = CHR ''_'')"
    by blast
  then show ?thesis
  proof cases
    case digit
    with assms Cons have "rest = snd (lexNumber (c # t))" by (simp add: lexToken_def)
    with lexNumber_length [OF digit, of t] Cons show ?thesis by simp
  next
    case quote
    with assms Cons obtain str where "lexString t = Some (str, rest)"
      by (auto simp: lexToken_def)
    from lexString_length [OF this] Cons show ?thesis by simp
  next
    case word
    then have wc: "isWordChar c" by (auto simp: isWordChar_def)
    let ?rest = "dropWhile isWordChar s"
    have r: "?rest = dropWhile isWordChar t" using Cons wc by simp
    have l: "length ?rest \<le> length t" using r w [of t] by simp
    show ?thesis
    proof (cases ?rest)
      case Nil
      with assms Cons word have "rest = []"
        by (auto simp: lexToken_def Let_def)
      with Cons show ?thesis by simp
    next
      case c2: (Cons p rest')
      have l': "length rest' < length t" using l c2 by simp
      have "length (dropWhile isWordChar rest') \<le> length rest'" by (rule w)
      with l' have l'': "length (dropWhile isWordChar rest') < length s" using Cons by simp
      from assms Cons word c2 have "rest = ?rest \<or> rest = dropWhile isWordChar rest'"
        by (auto simp: lexToken_def Let_def split: if_splits option.splits prod.splits)
      with l l'' Cons show ?thesis by auto
    qed
  next
    case other
    with assms Cons have "lexOperator s = Some (tok, rest)" by (simp add: lexToken_def)
    from lexOperator_length [OF this] show ?thesis .
  qed
qed

lemma tokenize_unguarded:
  "tokenize s =
     (case s of
        [] \<Rightarrow> Inr []
      | c # t \<Rightarrow>
          if isSpace c then tokenize t
          else (case lexToken s of
                  None \<Rightarrow> Inl SyntaxError
                | Some (tok, rest) \<Rightarrow>
                    (case tokenize rest of
                       Inl e \<Rightarrow> Inl e
                     | Inr toks \<Rightarrow> Inr (tok # toks))))"
proof -
  have "length rest < length (c # t)" if "lexToken (c # t) = Some (tok, rest)" for c t tok rest
    using lexToken_length [OF that] .
  then show ?thesis
    by (subst tokenize.simps) (auto split: list.splits option.splits)
qed

subsection \<open>The tokenizer on arithmetic formula texts\<close>

lemma decimalDigit_cases:
  "c \<in> set decimalDigits \<Longrightarrow>
   c = CHR ''0'' \<or> c = CHR ''1'' \<or> c = CHR ''2'' \<or> c = CHR ''3'' \<or> c = CHR ''4''
   \<or> c = CHR ''5'' \<or> c = CHR ''6'' \<or> c = CHR ''7'' \<or> c = CHR ''8'' \<or> c = CHR ''9''"
  by (simp add: decimalDigits_def)

lemma decimalDigit_isDigit:
  "c \<in> set decimalDigits \<Longrightarrow> isDigit c \<and> (of_char c :: nat) - 48 = digitValue c"
  by (drule decimalDigit_cases) (elim disjE; simp add: decimalDigits_def isDigit_def digitValue_def)

lemma digits_isDigit: "set ds \<subseteq> set decimalDigits \<Longrightarrow> \<forall>c\<in>set ds. isDigit c"
  using decimalDigit_isDigit by blast

lemma digitsValue_snoc: "digitsValue (ds @ [d]) = 10 * digitsValue ds + ((of_char d :: nat) - 48)"
  by (simp add: digitsValue_def)

lemma digitsValue_wholeValue:
  "set ds \<subseteq> set decimalDigits \<Longrightarrow> digitsValue ds = wholeValue ds"
proof (induction ds rule: rev_induct)
  case Nil
  show ?case by (simp add: digitsValue_def wholeValue_def)
next
  case (snoc d ds)
  then have "digitsValue ds = wholeValue ds" "(of_char d :: nat) - 48 = digitValue d"
    using decimalDigit_isDigit [of d] by simp_all
  then show ?case by (simp add: digitsValue_snoc wholeValue_def)
qed

lemma digitsValue_Cons:
  "digitsValue (d # ds) = ((of_char d :: nat) - 48) * 10 ^ length ds + digitsValue ds"
proof (induction ds rule: rev_induct)
  case Nil
  show ?case by (simp add: digitsValue_def)
next
  case (snoc e ds)
  have "digitsValue (d # ds @ [e]) = 10 * digitsValue (d # ds) + ((of_char e :: nat) - 48)"
    using digitsValue_snoc [of "d # ds" e] by simp
  with snoc show ?case by (simp add: digitsValue_snoc algebra_simps)
qed

lemma digitsValue_fractionValue:
  "set ds \<subseteq> set decimalDigits \<Longrightarrow> real (digitsValue ds) / 10 ^ length ds = fractionValue ds"
proof (induction ds)
  case Nil
  show ?case by (simp add: digitsValue_def)
next
  case (Cons d ds)
  then have "real (digitsValue ds) / 10 ^ length ds = fractionValue ds"
    "(of_char d :: nat) - 48 = digitValue d"
    using decimalDigit_isDigit [of d] by simp_all
  then show ?case
    by (simp add: digitsValue_Cons add_divide_distrib)
qed


lemma takeWhile_digits:
  assumes "set ds \<subseteq> set decimalDigits" and "t = [] \<or> \<not> isDigit (hd t)"
  shows "takeWhile isDigit (ds @ t) = ds" and "dropWhile isDigit (ds @ t) = t"
proof -
  have t: "takeWhile isDigit t = []" "dropWhile isDigit t = t"
    using assms(2) by (cases t; simp)+
  have d: "\<And>c. c \<in> set ds \<Longrightarrow> isDigit c"
    using digits_isDigit [OF assms(1)] by blast
  show "takeWhile isDigit (ds @ t) = ds" by (simp add: takeWhile_append2 d t)
  show "dropWhile isDigit (ds @ t) = t" by (simp add: dropWhile_append2 d t)
qed

lemma delimited_cases:
  "delimited (c # t) \<Longrightarrow>
   c = CHR ''+'' \<or> c = CHR ''-'' \<or> c = CHR ''*'' \<or> c = CHR ''/'' \<or> c = CHR ''^''
   \<or> c = CHR ''('' \<or> c = CHR '')'' \<or> c = CHR '' '' \<or> c = CHR 0x09 \<or> c = CHR 0x0A
   \<or> c = CHR 0x0D"
  by (simp add: delimited_def whiteSpace_def)

lemma delimited_start:
  assumes "delimited (c # t)"
  shows "\<not> isDigit c" and "c \<noteq> CHR ''.''" and "c \<noteq> CHR ''e''" and "c \<noteq> CHR ''E''"
  using delimited_cases [OF assms] by (elim disjE; simp add: isDigit_def)+

lemma delimited_nonDigit: "delimited rest \<Longrightarrow> rest = [] \<or> \<not> isDigit (hd rest)"
  using delimited_start(1) by (cases rest) auto

lemma lexExponent_correct:
  assumes "exponentText e ev" and "delimited rest"
  shows "lexExponent (e @ rest) = (ev, rest)"
  using assms(1)
proof (cases rule: exponentText.cases)
  case exponent_none
  show ?thesis
  proof (cases rest)
    case Nil
    with exponent_none show ?thesis by (simp add: lexExponent_def)
  next
    case (Cons c t)
    with assms(2) delimited_start [of c t] exponent_none show ?thesis
      by (simp add: lexExponent_def)
  qed
next
  case (exponent_plain ds c)
  then obtain d ds' where ds: "ds = d # ds'" by (cases ds) (auto simp: isDigits_def)
  from exponent_plain have sub: "set ds \<subseteq> set decimalDigits" by (simp add: isDigits_def)
  then have d: "isDigit d" using ds decimalDigit_isDigit [of d] by simp
  note tw = takeWhile_digits [OF sub delimited_nonDigit [OF assms(2)]]
  have "lexExponent (c # ds @ rest)
      = (int (digitsValue (takeWhile isDigit (ds @ rest))), dropWhile isDigit (ds @ rest))"
    using exponent_plain(4) d by (auto simp: lexExponent_def ds)
  then show ?thesis
    using exponent_plain(1,2) by (simp add: tw digitsValue_wholeValue [OF sub])
next
  case (exponent_plus ds c)
  from exponent_plus have sub: "set ds \<subseteq> set decimalDigits" and ne: "ds \<noteq> []"
    by (simp_all add: isDigits_def)
  note tw = takeWhile_digits [OF sub delimited_nonDigit [OF assms(2)]]
  have "\<not> isDigit (CHR ''+'')" by (simp add: isDigit_def)
  then have "lexExponent (c # CHR ''+'' # ds @ rest) = (int (digitsValue ds), rest)"
    using exponent_plus(4) ne by (auto simp: lexExponent_def tw)
  then show ?thesis
    using exponent_plus(1,2) by (simp add: digitsValue_wholeValue [OF sub])
next
  case (exponent_minus ds c)
  from exponent_minus have sub: "set ds \<subseteq> set decimalDigits" and ne: "ds \<noteq> []"
    by (simp_all add: isDigits_def)
  note tw = takeWhile_digits [OF sub delimited_nonDigit [OF assms(2)]]
  have "\<not> isDigit (CHR ''-'')" by (simp add: isDigit_def)
  then have "lexExponent (c # CHR ''-'' # ds @ rest) = (- int (digitsValue ds), rest)"
    using exponent_minus(4) ne by (auto simp: lexExponent_def tw)
  then show ?thesis
    using exponent_minus(1,2) by (simp add: digitsValue_wholeValue [OF sub])
qed

lemma exponentText_start:
  assumes "exponentText e ev" and "delimited rest"
  shows "e @ rest = [] \<or> (\<not> isDigit (hd (e @ rest)) \<and> hd (e @ rest) \<noteq> CHR ''.'')"
  using assms(1)
proof (cases rule: exponentText.cases)
  case exponent_none
  with assms(2) delimited_start show ?thesis by (cases rest) auto
qed (auto simp: isDigit_def)

lemma lexNumber_correct:
  assumes "numeralText s x" and "delimited rest"
  shows "lexNumber (s @ rest) = (x, rest)"
  using assms(1)
proof (cases rule: numeralText.cases)
  case (numeral_parts w f fv e ev)
  from numeral_parts(3) have w: "set w \<subseteq> set decimalDigits" by (simp add: isDigits_def)
  note ex = lexExponent_correct [OF numeral_parts(5) assms(2)]
  note st = exponentText_start [OF numeral_parts(5) assms(2)]
  from numeral_parts(4) show ?thesis
  proof (cases rule: fractionText.cases)
    case fraction_none
    define a where "a = e @ rest"
    have nd: "a = [] \<or> \<not> isDigit (hd a)" using st by (auto simp: a_def)
    note tw = takeWhile_digits [OF w nd]
    have fr: "(case a of [] \<Rightarrow> [] | p # t \<Rightarrow> if p = CHR ''.'' then takeWhile isDigit t else []) = []"
      and af: "(case a of [] \<Rightarrow> [] | p # t \<Rightarrow> if p = CHR ''.'' then dropWhile isDigit t else a) = a"
      using st by (cases a; simp add: a_def)+
    have z: "digitsValue [] = 0" by (simp add: digitsValue_def)
    have "lexNumber (w @ a) = ((real (digitsValue w) + 0) * 10 powi ev, rest)"
      using ex by (simp add: lexNumber_def Let_def tw fr af z a_def [symmetric])
    then show ?thesis
      using numeral_parts(1,2) fraction_none
      by (simp add: digitsValue_wholeValue [OF w] a_def)
  next
    case (fraction_digits ds)
    from fraction_digits(3) have d: "set ds \<subseteq> set decimalDigits" by (simp add: isDigits_def)
    define a where "a = e @ rest"
    have nd: "a = [] \<or> \<not> isDigit (hd a)" using st by (auto simp: a_def)
    have pt: "(CHR ''.'' # ds @ a) = [] \<or> \<not> isDigit (hd (CHR ''.'' # ds @ a))"
      by (simp add: isDigit_def)
    note tw1 = takeWhile_digits [OF w pt]
    note tw2 = takeWhile_digits [OF d nd]
    have "lexNumber (w @ CHR ''.'' # ds @ a)
        = ((real (digitsValue w) + real (digitsValue ds) / 10 ^ length ds) * 10 powi ev, rest)"
      using ex by (simp add: lexNumber_def Let_def tw1 tw2 a_def [symmetric])
    then have "lexNumber (w @ CHR ''.'' # ds @ e @ rest)
        = ((real (digitsValue w) + real (digitsValue ds) / 10 ^ length ds) * 10 powi ev, rest)"
      by (simp add: a_def)
    then show ?thesis
      using numeral_parts(1,2) fraction_digits(1,2)
      by (simp add: digitsValue_wholeValue [OF w] digitsValue_fractionValue [OF d])
  qed
qed

lemma whiteSpace_isSpace: "c \<in> set whiteSpace \<Longrightarrow> isSpace c"
  by (auto simp: whiteSpace_def isSpace_def)

lemma tokenize_space: "c \<in> set whiteSpace \<Longrightarrow> tokenize (c # t) = tokenize t"
  by (subst tokenize_unguarded) (simp add: whiteSpace_isSpace)

lemma tokenize_symbol:
  "tokenize (CHR ''+'' # t) = tokensBefore [OPERATOR OpAdd] (tokenize t)"
  "tokenize (CHR ''-'' # t) = tokensBefore [OPERATOR OpSub] (tokenize t)"
  "tokenize (CHR ''*'' # t) = tokensBefore [OPERATOR OpMul] (tokenize t)"
  "tokenize (CHR ''/'' # t) = tokensBefore [OPERATOR OpDiv] (tokenize t)"
  "tokenize (CHR ''^'' # t) = tokensBefore [OPERATOR OpPow] (tokenize t)"
  "tokenize (CHR ''('' # t) = tokensBefore [LPAREN] (tokenize t)"
  "tokenize (CHR '')'' # t) = tokensBefore [RPAREN] (tokenize t)"
  by (subst tokenize_unguarded,
      simp add: tokensBefore_def lexToken_def lexOperator_def isSpace_def isDigit_def isLetter_def
        split: sum.splits)+

lemma tokenize_number:
  assumes "numeralText s x" and "delimited rest"
  shows "tokenize (s @ rest) = tokensBefore [NUMBER x] (tokenize rest)"
proof -
  from assms(1) obtain d s' where s: "s = d # s'" and d: "d \<in> set decimalDigits"
    by (cases rule: numeralText.cases) (auto simp: isDigits_def neq_Nil_conv)
  from d have dd: "isDigit d" using decimalDigit_isDigit by blast
  then have ns: "\<not> isSpace d" by (auto simp: isDigit_def isSpace_def)
  have "lexToken (s @ rest) = Some (NUMBER x, rest)"
    using lexNumber_correct [OF assms] dd by (simp add: lexToken_def s)
  then show ?thesis
    using ns by (subst tokenize_unguarded) (simp add: s tokensBefore_def split: sum.splits)
qed

lemma tokensBefore_append:
  "tokensBefore ts1 (tokensBefore ts2 res) = tokensBefore (ts1 @ ts2) res"
  by (cases res) (simp_all add: tokensBefore_def)

lemma delimited_symbol:
  "delimited (CHR ''+'' # t)" "delimited (CHR ''-'' # t)" "delimited (CHR ''*'' # t)"
  "delimited (CHR ''/'' # t)" "delimited (CHR ''^'' # t)" "delimited (CHR '')'' # t)"
  by (simp_all add: delimited_def)

lemma delimited_space: "c \<in> set whiteSpace \<Longrightarrow> delimited (c # t)"
  by (simp add: delimited_def)

lemma tokenize_arithText:
  assumes "arithText n s a"
  shows "\<exists>ts. arithTokens n ts a
           \<and> (\<forall>rest. delimited rest \<longrightarrow> tokenize (s @ rest) = tokensBefore ts (tokenize rest))"
  using assms
proof (induction rule: arithText.induct)
  case (ax_number s x)
  show ?case
    using tokenize_number [OF ax_number] at_number [of x] by blast
next
  case (ax_parens s a)
  then obtain ts where ts: "arithTokens 4 ts a"
    "\<And>rest. delimited rest \<Longrightarrow> tokenize (s @ rest) = tokensBefore ts (tokenize rest)"
    by blast
  have "tokenize ((CHR ''('' # s @ '')'') @ rest) = tokensBefore (LPAREN # ts @ [RPAREN]) (tokenize rest)"
    for rest
    using ts(2) [of "CHR '')'' # rest"]
    by (simp add: tokenize_symbol delimited_symbol tokensBefore_append)
  with at_parens [OF ts(1)] show ?case by blast
next
  case (ax_neg s a)
  then obtain ts where ts: "arithTokens 1 ts a"
    "\<And>rest. delimited rest \<Longrightarrow> tokenize (s @ rest) = tokensBefore ts (tokenize rest)"
    by blast
  have "tokenize ((CHR ''-'' # s) @ rest) = tokensBefore (OPERATOR OpSub # ts) (tokenize rest)"
    if "delimited rest" for rest
    using ts(2) [OF that] by (simp add: tokenize_symbol tokensBefore_append)
  with at_neg [OF ts(1)] show ?case by blast
next
  case (ax_pos s a)
  then obtain ts where ts: "arithTokens 1 ts a"
    "\<And>rest. delimited rest \<Longrightarrow> tokenize (s @ rest) = tokensBefore ts (tokenize rest)"
    by blast
  have "tokenize ((CHR ''+'' # s) @ rest) = tokensBefore (OPERATOR OpAdd # ts) (tokenize rest)"
    if "delimited rest" for rest
    using ts(2) [OF that] by (simp add: tokenize_symbol tokensBefore_append)
  with at_pos [OF ts(1)] show ?case by blast
next
  case (ax_pow s1 a s2 b)
  then obtain ts1 ts2 where ts: "arithTokens 1 ts1 a" "arithTokens 2 ts2 b"
    "\<And>rest. delimited rest \<Longrightarrow> tokenize (s1 @ rest) = tokensBefore ts1 (tokenize rest)"
    "\<And>rest. delimited rest \<Longrightarrow> tokenize (s2 @ rest) = tokensBefore ts2 (tokenize rest)"
    by blast
  have "tokenize ((s1 @ CHR ''^'' # s2) @ rest)
          = tokensBefore (ts1 @ OPERATOR OpPow # ts2) (tokenize rest)"
    if "delimited rest" for rest
    using ts(3) [of "CHR ''^'' # s2 @ rest"] ts(4) [OF that]
    by (simp add: tokenize_symbol delimited_symbol tokensBefore_append)
  with at_pow [OF ts(1,2)] show ?case by blast
next
  case (ax_mul s1 a s2 b)
  then obtain ts1 ts2 where ts: "arithTokens 3 ts1 a" "arithTokens 2 ts2 b"
    "\<And>rest. delimited rest \<Longrightarrow> tokenize (s1 @ rest) = tokensBefore ts1 (tokenize rest)"
    "\<And>rest. delimited rest \<Longrightarrow> tokenize (s2 @ rest) = tokensBefore ts2 (tokenize rest)"
    by blast
  have "tokenize ((s1 @ CHR ''*'' # s2) @ rest)
          = tokensBefore (ts1 @ OPERATOR OpMul # ts2) (tokenize rest)"
    if "delimited rest" for rest
    using ts(3) [of "CHR ''*'' # s2 @ rest"] ts(4) [OF that]
    by (simp add: tokenize_symbol delimited_symbol tokensBefore_append)
  with at_mul [OF ts(1,2)] show ?case by blast
next
  case (ax_div s1 a s2 b)
  then obtain ts1 ts2 where ts: "arithTokens 3 ts1 a" "arithTokens 2 ts2 b"
    "\<And>rest. delimited rest \<Longrightarrow> tokenize (s1 @ rest) = tokensBefore ts1 (tokenize rest)"
    "\<And>rest. delimited rest \<Longrightarrow> tokenize (s2 @ rest) = tokensBefore ts2 (tokenize rest)"
    by blast
  have "tokenize ((s1 @ CHR ''/'' # s2) @ rest)
          = tokensBefore (ts1 @ OPERATOR OpDiv # ts2) (tokenize rest)"
    if "delimited rest" for rest
    using ts(3) [of "CHR ''/'' # s2 @ rest"] ts(4) [OF that]
    by (simp add: tokenize_symbol delimited_symbol tokensBefore_append)
  with at_div [OF ts(1,2)] show ?case by blast
next
  case (ax_add s1 a s2 b)
  then obtain ts1 ts2 where ts: "arithTokens 4 ts1 a" "arithTokens 3 ts2 b"
    "\<And>rest. delimited rest \<Longrightarrow> tokenize (s1 @ rest) = tokensBefore ts1 (tokenize rest)"
    "\<And>rest. delimited rest \<Longrightarrow> tokenize (s2 @ rest) = tokensBefore ts2 (tokenize rest)"
    by blast
  have "tokenize ((s1 @ CHR ''+'' # s2) @ rest)
          = tokensBefore (ts1 @ OPERATOR OpAdd # ts2) (tokenize rest)"
    if "delimited rest" for rest
    using ts(3) [of "CHR ''+'' # s2 @ rest"] ts(4) [OF that]
    by (simp add: tokenize_symbol delimited_symbol tokensBefore_append)
  with at_add [OF ts(1,2)] show ?case by blast
next
  case (ax_sub s1 a s2 b)
  then obtain ts1 ts2 where ts: "arithTokens 4 ts1 a" "arithTokens 3 ts2 b"
    "\<And>rest. delimited rest \<Longrightarrow> tokenize (s1 @ rest) = tokensBefore ts1 (tokenize rest)"
    "\<And>rest. delimited rest \<Longrightarrow> tokenize (s2 @ rest) = tokensBefore ts2 (tokenize rest)"
    by blast
  have "tokenize ((s1 @ CHR ''-'' # s2) @ rest)
          = tokensBefore (ts1 @ OPERATOR OpSub # ts2) (tokenize rest)"
    if "delimited rest" for rest
    using ts(3) [of "CHR ''-'' # s2 @ rest"] ts(4) [OF that]
    by (simp add: tokenize_symbol delimited_symbol tokensBefore_append)
  with at_sub [OF ts(1,2)] show ?case by blast
next
  case (ax_lift n s a)
  then show ?case using at_lift by blast
next
  case (ax_space_before n s a c)
  then show ?case by (auto simp: tokenize_space)
next
  case (ax_space_after n s a c)
  then obtain ts where ts: "arithTokens n ts a"
    "\<And>rest. delimited rest \<Longrightarrow> tokenize (s @ rest) = tokensBefore ts (tokenize rest)"
    by blast
  have "tokenize ((s @ [c]) @ rest) = tokensBefore ts (tokenize rest)" for rest
    using ts(2) [of "c # rest"] ax_space_after.hyps(2)
    by (simp add: delimited_space tokenize_space)
  with ts(1) show ?case by blast
qed

lemma tokenize_arithText_whole:
  assumes "arithText n s a"
  shows "\<exists>ts. arithTokens n ts a \<and> tokenize s = Inr ts"
proof -
  from tokenize_arithText [OF assms] obtain ts where
    ts: "arithTokens n ts a"
    "\<forall>rest. delimited rest \<longrightarrow> tokenize (s @ rest) = tokensBefore ts (tokenize rest)"
    by blast
  have "tokenize [] = Inr []" by (subst tokenize_unguarded) simp
  with ts(2) have "tokenize s = Inr ts"
    by (auto simp: delimited_def tokensBefore_def dest: spec [of _ "[]"])
  with ts(1) show ?thesis by blast
qed

subsection \<open>The parser on arithmetic phrases\<close>

lemma noTighter_mono: "noTighter (Suc n) ts \<Longrightarrow> noTighter n ts"
  by (auto simp: noTighter_def split: list.splits token.splits option.splits)

lemma noTighter_le: "n \<le> m \<Longrightarrow> noTighter m ts \<Longrightarrow> noTighter n ts"
  by (auto simp: noTighter_def split: list.splits token.splits option.splits)

lemma parseLevelRest_stop:
  "noTighter (Suc n) ts \<Longrightarrow> parseLevelRest n lhs ts = Inr (lhs, ts)"
  by (subst parseLevelRest.simps)
     (auto simp: noTighter_def split: list.splits token.splits option.splits)

lemma parseLevelRest_nil: "parseLevelRest n lhs [] = Inr (lhs, [])"
  by (subst parseLevelRest.simps) simp

lemma parseUnary_of_primary:
  assumes "parsePrimary ts = Inr r"
  shows "parseUnary ts = Inr r"
proof (cases ts)
  case Nil
  with assms show ?thesis by (simp add: parsePrimary.simps)
next
  case (Cons tok rest)
  have "\<not> (tok = OPERATOR OpSub \<or> tok = OPERATOR OpAdd)"
    using assms Cons by (auto simp: parsePrimary.simps)
  with assms Cons show ?thesis
    by (subst parseUnary.simps) simp
qed

lemma parsePower_of_unary:
  assumes "parseUnary ts = Inr (e, rest)" and "noTighter 0 rest"
  shows "parsePower ts = Inr (e, rest)"
proof -
  have "rest = [] \<or> (\<exists>tok rest'. rest = tok # rest' \<and> tok \<noteq> OPERATOR OpPow)"
    using assms(2) by (cases rest) (auto simp: noTighter_def binaryLevel_def)
  with assms(1) show ?thesis
    by (subst parsePower.simps) auto
qed

lemma parseLevel_of_power:
  assumes "parsePower ts = Inr (e, rest)" and "length rest \<le> length ts"
  shows "parseLevel 0 ts = parseLevelRest 0 e rest"
  using assms by (subst parseLevel.simps) (simp add: parseOperand.simps)

lemma parseLevel_Suc:
  assumes "parseLevel k ts = parseLevelRest k e rest" and "noTighter (Suc k) rest"
      and "length rest \<le> length ts"
  shows "parseLevel (Suc k) ts = parseLevelRest (Suc k) e rest"
proof -
  have "parseLevel k ts = Inr (e, rest)"
    using assms(1,2) by (simp add: parseLevelRest_stop)
  with assms(3) show ?thesis
    by (subst parseLevel.simps) (simp add: parseOperand.simps)
qed

lemma climb_levels:
  assumes base: "\<And>rest. noTighter j rest \<Longrightarrow> parseLevel j (ts @ rest) = parseLevelRest j e rest"
  shows "j \<le> k \<Longrightarrow> noTighter k rest \<Longrightarrow> parseLevel k (ts @ rest) = parseLevelRest k e rest"
proof (induction k)
  case 0
  then show ?case using base by simp
next
  case (Suc k)
  show ?case
  proof (cases "j = Suc k")
    case True
    with Suc.prems base show ?thesis by simp
  next
    case False
    with Suc.prems have "j \<le> k" by simp
    moreover have "noTighter k rest" using Suc.prems(2) by (rule noTighter_mono)
    ultimately have "parseLevel k (ts @ rest) = parseLevelRest k e rest" by (rule Suc.IH)
    then show ?thesis using Suc.prems(2) by (rule parseLevel_Suc) simp
  qed
qed

lemma phraseParsed_level:
  assumes "\<And>rest. noTighter j rest \<Longrightarrow> parseLevel j (ts @ rest) = parseLevelRest j e rest"
  shows "phraseParsed (3 + j) ts e"
  unfolding phraseParsed_def using climb_levels [OF assms] by auto

lemma phraseParsed_power:
  assumes "\<And>rest. noTighter 0 rest \<Longrightarrow> parsePower (ts @ rest) = Inr (e, rest)"
  shows "phraseParsed 2 ts e"
proof -
  have l0: "parseLevel 0 (ts @ rest) = parseLevelRest 0 e rest" if "noTighter 0 rest" for rest
    using assms [OF that] by (rule parseLevel_of_power) simp
  have "parseLevel k (ts @ rest) = parseLevelRest k e rest" if "noTighter k rest" for k rest
    using climb_levels [of 0 ts e k rest] l0 that by simp
  with assms show ?thesis unfolding phraseParsed_def by auto
qed

lemma phraseParsed_unary:
  assumes "\<And>rest. parseUnary (ts @ rest) = Inr (e, rest)"
  shows "phraseParsed 1 ts e"
proof -
  have "phraseParsed 2 ts e"
    using assms by (intro phraseParsed_power parsePower_of_unary)
  with assms show ?thesis unfolding phraseParsed_def by auto
qed

lemma phraseParsed_primary:
  assumes "\<And>rest. parsePrimary (ts @ rest) = Inr (e, rest)"
  shows "phraseParsed 0 ts e"
proof -
  have "phraseParsed 1 ts e"
    using assms by (intro phraseParsed_unary parseUnary_of_primary)
  with assms show ?thesis unfolding phraseParsed_def by auto
qed

lemma phraseParsed_mono: "phraseParsed n ts e \<Longrightarrow> n \<le> m \<Longrightarrow> phraseParsed m ts e"
  unfolding phraseParsed_def by auto

lemma phraseParsed_unaryD:
  "phraseParsed n ts e \<Longrightarrow> n \<le> 1 \<Longrightarrow> parseUnary (ts @ rest) = Inr (e, rest)"
  unfolding phraseParsed_def by blast

lemma phraseParsed_powerD:
  "phraseParsed n ts e \<Longrightarrow> n \<le> 2 \<Longrightarrow> noTighter 0 rest \<Longrightarrow> parsePower (ts @ rest) = Inr (e, rest)"
  unfolding phraseParsed_def by blast

lemma phraseParsed_levelD:
  "phraseParsed n ts e \<Longrightarrow> n \<le> 3 + k \<Longrightarrow> noTighter k rest
   \<Longrightarrow> parseLevel k (ts @ rest) = parseLevelRest k e rest"
  unfolding phraseParsed_def by blast

lemma phraseParsed_binary:
  assumes left: "phraseParsed (3 + j) ts1 ea"
      and right: "phraseParsed (2 + j) ts2 eb"
      and op: "binaryLevel op = Some j"
  shows "phraseParsed (3 + j) (ts1 @ OPERATOR op # ts2) (BinaryOp op ea eb)"
proof (rule phraseParsed_level)
  fix rest
  assume nt: "noTighter j rest"
  have "noTighter j (OPERATOR op # ts2 @ rest)"
    using op by (simp add: noTighter_def)
  then have "parseLevel j (ts1 @ OPERATOR op # ts2 @ rest)
      = parseLevelRest j ea (OPERATOR op # ts2 @ rest)"
    using phraseParsed_levelD [OF left, of j "OPERATOR op # ts2 @ rest"] by simp
  also have "\<dots> = parseLevelRest j (BinaryOp op ea eb) rest"
  proof -
    have "parseOperand j (ts2 @ rest) = Inr (eb, rest)"
    proof (cases j)
      case 0
      with right nt show ?thesis
        by (simp add: parseOperand.simps phraseParsed_powerD)
    next
      case (Suc m)
      have "noTighter m rest" using nt Suc by (simp add: noTighter_mono)
      with right Suc have "parseLevel m (ts2 @ rest) = parseLevelRest m eb rest"
        by (intro phraseParsed_levelD [where n = "2 + j"]) simp_all
      also have "\<dots> = Inr (eb, rest)"
        using nt Suc by (simp add: parseLevelRest_stop)
      finally show ?thesis using Suc by (simp add: parseOperand.simps)
    qed
    then show ?thesis using op
      by (subst parseLevelRest.simps) simp
  qed
  finally show "parseLevel j ((ts1 @ OPERATOR op # ts2) @ rest)
      = parseLevelRest j (BinaryOp op ea eb) rest"
    by simp
qed

lemma arithTokens_parsed: "arithTokens n ts a \<Longrightarrow> phraseParsed n ts (arithExpr a)"
proof (induction rule: arithTokens.induct)
  case (at_number x)
  show ?case
    by (rule phraseParsed_primary) (simp add: parsePrimary.simps)
next
  case (at_parens ts a)
  show ?case
  proof (rule phraseParsed_primary)
    fix rest
    have "noTighter topLevel (RPAREN # rest)" by (simp add: noTighter_def)
    with at_parens.IH have "parseLevel topLevel (ts @ RPAREN # rest)
        = parseLevelRest topLevel (arithExpr a) (RPAREN # rest)"
      by (intro phraseParsed_levelD [where n = 4]) (simp_all add: topLevel_def)
    also have "\<dots> = Inr (arithExpr a, RPAREN # rest)"
      by (subst parseLevelRest.simps) simp
    finally show "parsePrimary ((LPAREN # ts @ [RPAREN]) @ rest) = Inr (arithExpr a, rest)"
      by (subst parsePrimary.simps) simp
  qed
next
  case (at_neg ts a)
  show ?case
  proof (rule phraseParsed_unary)
    fix rest
    have "parseUnary (ts @ rest) = Inr (arithExpr a, rest)"
      using at_neg.IH by (rule phraseParsed_unaryD) simp
    then show "parseUnary ((OPERATOR OpSub # ts) @ rest) = Inr (arithExpr (ANeg a), rest)"
      by (subst parseUnary.simps) simp
  qed
next
  case (at_pos ts a)
  show ?case
  proof (rule phraseParsed_unary)
    fix rest
    have "parseUnary (ts @ rest) = Inr (arithExpr a, rest)"
      using at_pos.IH by (rule phraseParsed_unaryD) simp
    then show "parseUnary ((OPERATOR OpAdd # ts) @ rest) = Inr (arithExpr (APos a), rest)"
      by (subst parseUnary.simps) simp
  qed
next
  case (at_pow ts1 a ts2 b)
  show ?case
  proof (rule phraseParsed_power)
    fix rest
    assume nt: "noTighter 0 rest"
    have u: "parseUnary (ts1 @ OPERATOR OpPow # ts2 @ rest)
        = Inr (arithExpr a, OPERATOR OpPow # ts2 @ rest)"
      using at_pow.IH(1) by (rule phraseParsed_unaryD) simp
    have p: "parsePower (ts2 @ rest) = Inr (arithExpr b, rest)"
      using at_pow.IH(2) _ nt by (rule phraseParsed_powerD) simp
    show "parsePower ((ts1 @ OPERATOR OpPow # ts2) @ rest) = Inr (arithExpr (APow a b), rest)"
      using u p by (subst parsePower.simps) simp
  qed
next
  case (at_mul ts1 a ts2 b)
  from phraseParsed_binary [of 0 ts1 "arithExpr a" ts2 "arithExpr b" OpMul] at_mul.IH
  show ?case by (simp add: binaryLevel_def)
next
  case (at_div ts1 a ts2 b)
  from phraseParsed_binary [of 0 ts1 "arithExpr a" ts2 "arithExpr b" OpDiv] at_div.IH
  show ?case by (simp add: binaryLevel_def)
next
  case (at_add ts1 a ts2 b)
  from phraseParsed_binary [of 1 ts1 "arithExpr a" ts2 "arithExpr b" OpAdd] at_add.IH
  show ?case by (simp add: binaryLevel_def numeral_eq_Suc)
next
  case (at_sub ts1 a ts2 b)
  from phraseParsed_binary [of 1 ts1 "arithExpr a" ts2 "arithExpr b" OpSub] at_sub.IH
  show ?case by (simp add: binaryLevel_def numeral_eq_Suc)
next
  case (at_lift n ts a)
  then show ?case by (auto intro: phraseParsed_mono)
qed

lemma arithTokens_level: "arithTokens n ts a \<Longrightarrow> n \<le> 4"
  by (induction rule: arithTokens.induct) auto

lemma parseFormula_arith:
  assumes "arithTokens n ts a"
  shows "parseFormula ts = Inr (arithExpr a)"
proof -
  have "n \<le> 3 + topLevel"
    using arithTokens_level [OF assms] by (simp add: topLevel_def)
  moreover have "noTighter topLevel []" by (simp add: noTighter_def)
  ultimately have "parseLevel topLevel (ts @ []) = parseLevelRest topLevel (arithExpr a) []"
    using arithTokens_parsed [OF assms] by (intro phraseParsed_levelD)
  then show ?thesis
    by (simp add: parseFormula_def parseLevelRest_nil)
qed

subsection \<open>Arithmetic formulas evaluate to their value\<close>

lemma realPower_powerOf:
  assumes "realPower x y = Some z"
  shows "powerOf x y = Inr z"
proof (cases "0 < x")
  case True
  with assms have z: "z = x powr y" by (simp add: realPower_def)
  show ?thesis
  proof (cases "y = of_int \<lfloor>y\<rfloor>")
    case whole: True
    have "x powr of_int \<lfloor>y\<rfloor> = x powi \<lfloor>y\<rfloor>"
      using True by (intro powr_real_of_int') simp_all
    with whole have "x powi \<lfloor>y\<rfloor> = x powr y" by simp
    with True whole z show ?thesis by (simp add: powerOf_def)
  next
    case False
    with True z show ?thesis by (simp add: powerOf_def)
  qed
next
  case False
  show ?thesis
  proof (cases "x = 0")
    case zero: True
    with assms have y: "0 < y" and z: "z = 0"
      by (simp_all add: realPower_def split: if_splits)
    show ?thesis
    proof (cases "y = of_int \<lfloor>y\<rfloor>")
      case True
      with y have "\<lfloor>y\<rfloor> \<noteq> 0" by auto
      with True zero y z show ?thesis by (simp add: powerOf_def power_int_0_left)
    next
      case False
      with zero y z show ?thesis by (simp add: powerOf_def)
    qed
  next
    case nonzero: False
    with False assms have "y \<in> \<int>" and z: "z = x powi \<lfloor>y\<rfloor>"
      by (simp_all add: realPower_def split: if_splits)
    then have "y = of_int \<lfloor>y\<rfloor>" by (simp add: of_int_floor)
    with nonzero z show ?thesis by (simp add: powerOf_def)
  qed
qed

lemma eval_arithExpr:
  "arithValue a = Some x \<Longrightarrow> eval lib store sid (arithExpr a) = Inr (Number x)"
proof (induction a arbitrary: x)
  case (APow a b)
  then obtain u v where uv: "arithValue a = Some u" "arithValue b = Some v" "realPower u v = Some x"
    by (auto split: option.splits)
  from APow.IH(1) [OF uv(1)] APow.IH(2) [OF uv(2)] realPower_powerOf [OF uv(3)]
  show ?case by (simp add: applyBinary_def toNumber_def arithmetic_def)
qed (auto simp: applyBinary_def applyUnary_def toNumber_def arithmetic_def
       split: option.splits if_splits)

lemma arithText_raise:
  "arithText n s a \<Longrightarrow> n \<le> m \<Longrightarrow> m \<le> 4 \<Longrightarrow> arithText m s a"
proof (induction m)
  case 0
  then show ?case by simp
next
  case (Suc m)
  show ?case
  proof (cases "n = Suc m")
    case True
    with Suc.prems show ?thesis by simp
  next
    case False
    with Suc.prems have "arithText m s a" by (intro Suc.IH) simp_all
    then show ?thesis using Suc.prems(3) by (intro ax_lift) simp_all
  qed
qed

lemma arithText_digits:
  assumes "isDigits w" and "n \<le> 4"
  shows "arithText n w (ANum (real (wholeValue w)))"
proof -
  have "numeralText (w @ [] @ []) ((real (wholeValue w) + 0) * 10 powi 0)"
    by (intro numeral_parts assms(1) fraction_none exponent_none)
  then have "arithText 0 w (ANum (real (wholeValue w)))"
    using ax_number by simp
  from arithText_raise [OF this _ assms(2)] show ?thesis by simp
qed

lemma digits_examples:
  "isDigits ''2''" "wholeValue ''2'' = 2" "isDigits ''3''" "wholeValue ''3'' = 3"
  "isDigits ''4''" "wholeValue ''4'' = 4" "isDigits ''10''" "wholeValue ''10'' = 10"
  "isDigits ''1''" "wholeValue ''1'' = 1" "isDigits ''5''" "fractionValue ''5'' = 1 / 2"
  by (simp_all add: isDigits_def wholeValue_def digitValue_def decimalDigits_def)

lemma arithText_example_1:
  "arithText 4 ''2+3*4'' (AAdd (ANum 2) (AMul (ANum 3) (ANum 4)))"
proof -
  have n: "arithText 4 ''2'' (ANum 2)" "arithText 3 ''3'' (ANum 3)" "arithText 2 ''4'' (ANum 4)"
    using arithText_digits [of "''2''" 4] arithText_digits [of "''3''" 3]
      arithText_digits [of "''4''" 2]
    by (simp_all add: digits_examples)
  have "arithText 3 (''3'' @ CHR ''*'' # ''4'') (AMul (ANum 3) (ANum 4))"
    by (rule ax_mul [OF n(2,3)])
  from ax_add [OF n(1) this] show ?thesis by simp
qed

lemma arithText_example_2:
  "arithText 4 ''(2+3)*4'' (AMul (AAdd (ANum 2) (ANum 3)) (ANum 4))"
proof -
  have n: "arithText 4 ''2'' (ANum 2)" "arithText 3 ''3'' (ANum 3)" "arithText 2 ''4'' (ANum 4)"
    using arithText_digits [of "''2''" 4] arithText_digits [of "''3''" 3]
      arithText_digits [of "''4''" 2]
    by (simp_all add: digits_examples)
  have "arithText 0 (CHR ''('' # (''2'' @ CHR ''+'' # ''3'') @ '')'') (AAdd (ANum 2) (ANum 3))"
    by (rule ax_parens [OF ax_add [OF n(1,2)]])
  then have "arithText 3 (CHR ''('' # (''2'' @ CHR ''+'' # ''3'') @ '')'') (AAdd (ANum 2) (ANum 3))"
    by (rule arithText_raise) simp_all
  from ax_mul [OF this n(3)] have
    "arithText 3 ''(2+3)*4'' (AMul (AAdd (ANum 2) (ANum 3)) (ANum 4))" by simp
  then show ?thesis by (rule arithText_raise) simp_all
qed

lemma arithText_example_3:
  "arithText 4 ''2^10'' (APow (ANum 2) (ANum 10))"
proof -
  have n: "arithText 1 ''2'' (ANum 2)" "arithText 2 ''10'' (ANum 10)"
    using arithText_digits [of "''2''" 1] arithText_digits [of "''10''" 2]
    by (simp_all add: digits_examples)
  from ax_pow [OF n] have "arithText 2 ''2^10'' (APow (ANum 2) (ANum 10))" by simp
  then show ?thesis by (rule arithText_raise) simp_all
qed

lemma arithText_example_4:
  "arithText 4 '' 1.5e1 * (2 + 3)'' (AMul (ANum 15) (AAdd (ANum 2) (ANum 3)))"
proof -
  have "numeralText (''1'' @ ''.5'' @ ''e1'') ((real (wholeValue ''1'') + fractionValue ''5'')
          * 10 powi int (wholeValue ''1''))"
    by (intro numeral_parts fraction_digits exponent_plain) (simp_all add: digits_examples)
  then have "numeralText ''1.5e1'' 15"
    by (simp add: digits_examples digitValue_def decimalDigits_def)
  then have "arithText 0 ''1.5e1'' (ANum 15)" by (rule ax_number)
  then have "arithText 3 ''1.5e1'' (ANum 15)" by (rule arithText_raise) simp_all
  then have "arithText 3 (''1.5e1'' @ '' '') (ANum 15)"
    by (rule ax_space_after) (simp add: whiteSpace_def)
  then have l: "arithText 3 (CHR '' '' # ''1.5e1'' @ '' '') (ANum 15)"
    by (rule ax_space_before) (simp add: whiteSpace_def)
  have n: "arithText 4 ''2'' (ANum 2)" "arithText 3 ''3'' (ANum 3)"
    using arithText_digits [of "''2''" 4] arithText_digits [of "''3''" 3]
    by (simp_all add: digits_examples)
  have "arithText 4 (''2'' @ '' '') (ANum 2)"
    by (rule ax_space_after [OF n(1)]) (simp add: whiteSpace_def)
  moreover have "arithText 3 (CHR '' '' # ''3'') (ANum 3)"
    by (rule ax_space_before [OF n(2)]) (simp add: whiteSpace_def)
  ultimately have "arithText 4 (''2'' @ '' '') (ANum 2)" "arithText 3 (CHR '' '' # ''3'') (ANum 3)" .
  from ax_add [OF this] have "arithText 4 ''2 + 3'' (AAdd (ANum 2) (ANum 3))" by simp
  from ax_parens [OF this] have "arithText 0 ''(2 + 3)'' (AAdd (ANum 2) (ANum 3))" by simp
  then have "arithText 2 ''(2 + 3)'' (AAdd (ANum 2) (ANum 3))"
    by (rule arithText_raise) simp_all
  then have "arithText 2 (CHR '' '' # ''(2 + 3)'') (AAdd (ANum 2) (ANum 3))"
    by (rule ax_space_before) (simp add: whiteSpace_def)
  from ax_mul [OF l this]
  have "arithText 3 '' 1.5e1 * (2 + 3)'' (AMul (ANum 15) (AAdd (ANum 2) (ANum 3)))" by simp
  then show ?thesis by (rule arithText_raise) simp_all
qed

text \<open>
  The engine modelled from the specification on the well-formed arithmetic formulas, the
  texts of the grammar \<open>arithText\<close> (numbers with an optional fraction and exponent,
  \<open>+ - * / ^\<close>, unary signs, parentheses and white space, with the precedence and
  associativity of section 4.2). \<open>evaluateFormula\<close> returns, for every library, store and
  sheet, the number that is the value of the arithmetic expression the text means,
  whenever that expression has a value (no division by zero, no power without a value in
  it).
\<close>

lemma evaluateFormula_arithmetic:
  assumes "arithText n formulaText a" and "arithValue a = Some x"
  shows "evaluateFormula lib store sid (CHR ''='' # formulaText) = Inr (Number x)"
proof -
  from tokenize_arithText_whole [OF assms(1)] obtain ts where
    ts: "arithTokens n ts a" "tokenize formulaText = Inr ts"
    by blast
  from parseFormula_arith [OF ts(1)] ts(2) eval_arithExpr [OF assms(2)] show ?thesis
    by (simp add: evaluateFormula_def compileFormula_def stripEquals_def)
qed

text \<open>
  This at the three formulas of the specification (\<open>=2+3*4\<close> is 14, \<open>=(2+3)*4\<close> is 20
  and \<open>=2^10\<close> is 1024) and at a formula with white space, a fraction and an exponent.
\<close>

lemma evaluateFormula_arithmetic_examples:
  "arithText 4 ''2+3*4'' (AAdd (ANum 2) (AMul (ANum 3) (ANum 4)))
   \<and> arithValue (AAdd (ANum 2) (AMul (ANum 3) (ANum 4))) = Some 14
   \<and> evaluateFormula plainLibrary Map.empty 1 ''=2+3*4'' = Inr (Number 14)
   \<and> evaluateFormula plainLibrary Map.empty 1 ''=(2+3)*4'' = Inr (Number 20)
   \<and> evaluateFormula plainLibrary Map.empty 1 ''=2^10'' = Inr (Number 1024)
   \<and> evaluateFormula plainLibrary Map.empty 1 ''= 1.5e1 * (2 + 3)'' = Inr (Number 75)"
proof -
  have v: "arithValue (AAdd (ANum 2) (AMul (ANum 3) (ANum 4))) = Some 14"
      "arithValue (AMul (AAdd (ANum 2) (ANum 3)) (ANum 4)) = Some 20"
      "arithValue (APow (ANum 2) (ANum 10)) = Some 1024"
      "arithValue (AMul (ANum 15) (AAdd (ANum 2) (ANum 3))) = Some 75"
    by (simp_all add: realPower_def)
  from evaluateFormula_arithmetic [OF arithText_example_1 v(1)]
    evaluateFormula_arithmetic [OF arithText_example_2 v(2)]
    evaluateFormula_arithmetic [OF arithText_example_3 v(3)]
    evaluateFormula_arithmetic [OF arithText_example_4 v(4)]
    arithText_example_1 v(1)
  show ?thesis by simp
qed

subsection \<open>SUM over a range\<close>

lemma compile_sum_range:
  "compileFormula ''=SUM(A1:A3)'' = Inr (FunctionCall ''SUM'' [RangeRef 1 1 1 3])"
  by code_simp

lemma compile_sum_cells:
  "compileFormula ''=A1+A2+A3''
     = Inr (BinaryOp OpAdd (BinaryOp OpAdd (CellRef 1 1) (CellRef 1 2)) (CellRef 1 3))"
  by code_simp

lemma rangeCells_A1_A3: "rangeCells sid 1 1 1 3 = [(sid, 1, 1), (sid, 2, 1), (sid, 3, 1)]"
proof -
  have "[1..<Suc 1] = [1::nat]" by simp
  moreover have "[1..<Suc 3] = [1::nat, 2, 3]" by (simp add: upt_rec)
  ultimately show ?thesis by (simp add: rangeCells_def)
qed

lemma numbersOf_sum: "sum_list (numbersOf vs) = sum_list (map numberOrZero vs)"
  by (induction vs) (auto simp: numberOrZero_def split: cellValue.splits)

lemma toNumber_numberOrEmpty: "isNumberOrEmpty v \<Longrightarrow> toNumber v = Inr (numberOrZero v)"
  by (cases v) (simp_all add: isNumberOrEmpty_def toNumber_def numberOrZero_def)

lemma toNumber_Number: "toNumber (Number x) = Inr x"
  by (simp add: toNumber_def)

lemma eval_aggregate_range:
  assumes "isAggregate name"
  shows "eval lib store sid (FunctionCall name [RangeRef c1 r1 c2 r2])
           = (case resolveRange store sid c1 r1 c2 r2 of
                Inl e \<Rightarrow> Inl e
              | Inr vs \<Rightarrow> aggregate name vs)"
proof -
  have "name \<noteq> ''IF''" using assms by (auto simp: isAggregate_def)
  with assms show ?thesis
    by (simp add: applyFunction_def split: sum.splits)
qed

lemma coerce_10: "coerceLiteral ''10'' = Number 10"
  by (simp add: coerceLiteral_def parseNumber_def lexer_defs)

lemma coerce_2_5: "coerceLiteral ''2.5'' = Number (5 / 2)"
  by (simp add: coerceLiteral_def parseNumber_def lexer_defs)

lemma coerce_abc: "coerceLiteral ''abc'' = String ''abc''"
  by (simp add: coerceLiteral_def parseNumber_def lexer_defs)

text \<open>
  Claim C4, against the engine modelled from the specification. Whatever values the cells
  A1, A2 and A3 resolve to (numbers, strings, Booleans, the empty value of an unset cell),
  \<open>=SUM(A1:A3)\<close> evaluates to the sum of the three read as numbers with every value that
  is not a number counting as 0; and where the three are numbers or empty, so that
  \<open>=A1+A2+A3\<close> adds them without a coercion error, the two formulas evaluate to the same
  result.
\<close>

theorem sum_range_is_sum_of_cells:
  assumes "resolveCell store (sid, 1, 1) = Inr a1"
      and "resolveCell store (sid, 2, 1) = Inr a2"
      and "resolveCell store (sid, 3, 1) = Inr a3"
  shows "evaluateFormula lib store sid ''=SUM(A1:A3)''
           = Inr (Number (numberOrZero a1 + numberOrZero a2 + numberOrZero a3))
         \<and> (isNumberOrEmpty a1 \<and> isNumberOrEmpty a2 \<and> isNumberOrEmpty a3
              \<longrightarrow> evaluateFormula lib store sid ''=A1+A2+A3''
                    = evaluateFormula lib store sid ''=SUM(A1:A3)'')"
proof -
  have s: "evaluateFormula lib store sid ''=SUM(A1:A3)''
      = Inr (Number (numberOrZero a1 + numberOrZero a2 + numberOrZero a3))"
  proof -
    have r: "resolveRange store sid 1 1 1 3 = Inr [a1, a2, a3]"
      unfolding resolveRange_def rangeCells_A1_A3 using assms by simp
    have "eval lib store sid (FunctionCall ''SUM'' [RangeRef 1 1 1 3])
        = (case resolveRange store sid 1 1 1 3 of
             Inl e \<Rightarrow> Inl e
           | Inr vs \<Rightarrow> aggregate ''SUM'' vs)"
      by (rule eval_aggregate_range) (simp add: isAggregate_def)
    also have "\<dots> = aggregate ''SUM'' [a1, a2, a3]"
      unfolding r by simp
    also have "\<dots> = Inr (Number (numberOrZero a1 + numberOrZero a2 + numberOrZero a3))"
      by (simp add: aggregate_def Let_def numbersOf_sum del: numbersOf.simps)
    finally show ?thesis
      unfolding evaluateFormula_def compile_sum_range by simp
  qed
  have "evaluateFormula lib store sid ''=A1+A2+A3''
      = Inr (Number (numberOrZero a1 + numberOrZero a2 + numberOrZero a3))"
    if "isNumberOrEmpty a1" "isNumberOrEmpty a2" "isNumberOrEmpty a3"
    unfolding evaluateFormula_def compile_sum_cells
    using assms that
    by (simp add: applyBinary_def toNumber_numberOrEmpty toNumber_Number arithmetic_def
        del: One_nat_def)
  with s show ?thesis by simp
qed

text \<open>
  The theorem at a sheet with 10, the text abc and an unset cell (the sum is 10), and at a
  sheet with 10, 2.5 and an unset cell (both formulas give 12.5).
\<close>

theorem sum_range_is_sum_of_cells_witness:
  "resolveCell mixedSheet (1, 1, 1) = Inr (Number 10)
   \<and> resolveCell mixedSheet (1, 2, 1) = Inr (String ''abc'')
   \<and> resolveCell mixedSheet (1, 3, 1) = Inr Empty
   \<and> evaluateFormula plainLibrary mixedSheet 1 ''=SUM(A1:A3)'' = Inr (Number 10)
   \<and> resolveCell numberSheet (1, 1, 1) = Inr (Number 10)
   \<and> resolveCell numberSheet (1, 2, 1) = Inr (Number (5 / 2))
   \<and> resolveCell numberSheet (1, 3, 1) = Inr Empty
   \<and> isNumberOrEmpty (Number 10) \<and> isNumberOrEmpty (Number (5 / 2)) \<and> isNumberOrEmpty Empty
   \<and> evaluateFormula plainLibrary numberSheet 1 ''=SUM(A1:A3)'' = Inr (Number (25 / 2))
   \<and> evaluateFormula plainLibrary numberSheet 1 ''=A1+A2+A3'' = Inr (Number (25 / 2))"
proof -
  have m: "resolveCell mixedSheet (1, 1, 1) = Inr (Number 10)"
      "resolveCell mixedSheet (1, 2, 1) = Inr (String ''abc'')"
      "resolveCell mixedSheet (1, 3, 1) = Inr Empty"
    by (simp_all add: resolveCell_def mixedSheet_def literalCell_def coerce_10 coerce_abc)
  have n: "resolveCell numberSheet (1, 1, 1) = Inr (Number 10)"
      "resolveCell numberSheet (1, 2, 1) = Inr (Number (5 / 2))"
      "resolveCell numberSheet (1, 3, 1) = Inr Empty"
    by (simp_all add: resolveCell_def numberSheet_def literalCell_def coerce_10 coerce_2_5)
  have i: "isNumberOrEmpty (Number 10)" "isNumberOrEmpty (Number (5 / 2))" "isNumberOrEmpty Empty"
    by (simp_all add: isNumberOrEmpty_def)
  from sum_range_is_sum_of_cells [OF m, of plainLibrary]
  have "evaluateFormula plainLibrary mixedSheet 1 ''=SUM(A1:A3)'' = Inr (Number 10)"
    by (simp add: numberOrZero_def)
  moreover from sum_range_is_sum_of_cells [OF n, of plainLibrary] i
  have "evaluateFormula plainLibrary numberSheet 1 ''=SUM(A1:A3)'' = Inr (Number (25 / 2))"
       "evaluateFormula plainLibrary numberSheet 1 ''=A1+A2+A3'' = Inr (Number (25 / 2))"
    by (simp_all add: numberOrZero_def)
  ultimately show ?thesis using m n i by simp
qed

subsection \<open>Division by zero\<close>

lemma division_by_zero:
  assumes "eval lib store sid dividend = Inr a" and "toNumber a = Inr x"
      and "eval lib store sid divisor = Inr b" and "toNumber b = Inr 0"
  shows "eval lib store sid (BinaryOp OpDiv dividend divisor) = Inl DivisionByZero"
  using assms by (simp add: applyBinary_def arithmetic_def)

lemma readsFirstCell_error:
  "resolveCell store p = Inl err \<Longrightarrow> readsFirstCell store p cells
   \<Longrightarrow> collect (map (resolveCell store) cells) = Inl err"
  by (induction cells) (auto split: sum.splits)

lemma readsFirst_error:
  "(resolveCell store (sid, snd target, fst target) = Inl err
      \<longrightarrow> readsFirst lib store sid target e \<longrightarrow> eval lib store sid e = Inl err)"
  "(resolveCell store (sid, snd target, fst target) = Inl err
      \<longrightarrow> readsFirstArgs lib store sid target args
      \<longrightarrow> collect (map (\<lambda>arg. case arg of
                              RangeRef c1 r1 c2 r2 \<Rightarrow> resolveRange store sid c1 r1 c2 r2
                            | _ \<Rightarrow> (case eval lib store sid arg of
                                      Inl e \<Rightarrow> Inl e
                                    | Inr v \<Rightarrow> Inr [v]))
                       args)
            = Inl err)"
proof (induction lib store sid target e and lib store sid target args
       rule: readsFirst_readsFirstArgs.induct)
  case (2 lib store sid target col r)
  show ?case by auto
next
  case (5 lib store sid target op left right)
  then show ?case by (auto split: sum.splits)
next
  case (6 lib store sid target name args)
  then show ?case by (auto split: sum.splits if_splits list.splits)
next
  case (8 lib store sid target c1 r1 c2 r2 args)
  then show ?case
    by (auto simp: resolveRange_def readsFirstCell_error split: sum.splits)
qed (auto split: sum.splits)

lemma evaluateCell_error:
  assumes "store p = Some c" and "cs_formula c = Some formulaText"
      and "evaluateFormula lib store (fst p) formulaText = Inl err"
  shows "evaluateCell lib store p p = Some (c\<lparr> cs_calculatedValue := None, cs_error := Some err \<rparr>)"
  using assms by (simp add: evaluateCell_def setCalculatedValue_def)

lemma compile_division:
  "compileFormula ''=10/0'' = Inr (BinaryOp OpDiv (Literal (Number 10)) (Literal (Number 0)))"
  by code_simp

lemma evaluate_division: "evaluateFormula lib store sid ''=10/0'' = Inl DivisionByZero"
  unfolding evaluateFormula_def compile_division
  by (simp add: applyBinary_def toNumber_def arithmetic_def)

lemma compile_quotient:
  "compileFormula ''=A1/B1'' = Inr (BinaryOp OpDiv (CellRef 1 1) (CellRef 2 1))"
  by code_simp

lemma compile_dependents:
  "compileFormula ''=A1+1'' = Inr (BinaryOp OpAdd (CellRef 1 1) (Literal (Number 1)))"
  "compileFormula ''=SUM(A1)'' = Inr (FunctionCall ''SUM'' [CellRef 1 1])"
  "compileFormula ''=SUM(A1:A3)'' = Inr (FunctionCall ''SUM'' [RangeRef 1 1 1 3])"
  "compileFormula ''=IF(A1,1,2)''
     = Inr (FunctionCall ''IF'' [CellRef 1 1, Literal (Number 1), Literal (Number 2)])"
  by code_simp+

lemma compile_if_untaken:
  "compileFormula ''=IF(1,5,A1)''
     = Inr (FunctionCall ''IF'' [Literal (Number 1), Literal (Number 5), CellRef 1 1])"
  by code_simp

lemma compile_fails_before:
  "compileFormula ''=1/0+A1''
     = Inr (BinaryOp OpAdd (BinaryOp OpDiv (Literal (Number 1)) (Literal (Number 0))) (CellRef 1 1))"
  by code_simp

lemma erroredSheet_A1:
  "erroredSheet (1, 1, 1)
     = Some (divisionCell\<lparr> cs_calculatedValue := None, cs_error := Some DivisionByZero \<rparr>)"
proof -
  have "divisionSheet (1, 1, 1) = Some divisionCell" by (simp add: divisionSheet_def)
  moreover have "cs_formula divisionCell = Some ''=10/0''" by (simp add: divisionCell_def)
  moreover have "evaluateFormula plainLibrary divisionSheet (fst (1, 1, 1)) ''=10/0''
                   = Inl DivisionByZero"
    by (rule evaluate_division)
  ultimately show ?thesis unfolding erroredSheet_def by (rule evaluateCell_error)
qed

text \<open>
  The engine modelled from the specification on a division by zero. A division whose
  operands have numbers as values and whose divisor is zero evaluates to \<open>DivisionByZero\<close>,
  a result like any other and no exception. Where the formula of a cell evaluates to
  \<open>DivisionByZero\<close>, evaluating the cell puts that error on the cell and clears the cached
  value, and the cell then resolves to \<open>PropagatedError\<close> wrapping \<open>DivisionByZero\<close>; so does
  every formula whose evaluation reads the cell before anything else in it fails (the
  plain reference; an operand of an operator or an argument of a function, also within a
  range, what stands to its left having values; an \<open>IF\<close> whose condition or chosen branch
  reads it so).
\<close>

lemma division_by_zero_stored_and_propagated:
  assumes "store (sid, r, col) = Some c"
      and "cs_formula c = Some formulaText"
      and "evaluateFormula lib store sid formulaText = Inl DivisionByZero"
  shows "(\<forall>dividend divisor a b x.
            eval lib store sid dividend = Inr a \<and> toNumber a = Inr x
            \<and> eval lib store sid divisor = Inr b \<and> toNumber b = Inr 0
            \<longrightarrow> eval lib store sid (BinaryOp OpDiv dividend divisor) = Inl DivisionByZero)
         \<and> evaluateCell lib store (sid, r, col) (sid, r, col)
             = Some (c\<lparr> cs_calculatedValue := None, cs_error := Some DivisionByZero \<rparr>)
         \<and> resolveCell (evaluateCell lib store (sid, r, col)) (sid, r, col)
             = Inl (PropagatedError DivisionByZero)
         \<and> (\<forall>e. readsFirst lib (evaluateCell lib store (sid, r, col)) sid (col, r) e
                \<longrightarrow> eval lib (evaluateCell lib store (sid, r, col)) sid e
                      = Inl (PropagatedError DivisionByZero))
         \<and> (\<forall>dependent e.
               compileFormula dependent = Inr e
               \<and> readsFirst lib (evaluateCell lib store (sid, r, col)) sid (col, r) e
               \<longrightarrow> evaluateFormula lib (evaluateCell lib store (sid, r, col)) sid dependent
                     = Inl (PropagatedError DivisionByZero))"
proof -
  let ?store' = "evaluateCell lib store (sid, r, col)"
  have s: "?store' (sid, r, col)
      = Some (c\<lparr> cs_calculatedValue := None, cs_error := Some DivisionByZero \<rparr>)"
    using assms by (intro evaluateCell_error) simp_all
  then have p: "resolveCell ?store' (sid, r, col) = Inl (PropagatedError DivisionByZero)"
    by (simp add: resolveCell_def propagate_def)
  have e: "eval lib ?store' sid e = Inl (PropagatedError DivisionByZero)"
    if "readsFirst lib ?store' sid (col, r) e" for e
    using readsFirst_error(1) [of ?store' sid "(col, r)" "PropagatedError DivisionByZero" lib e]
      p that
    by simp
  have f: "evaluateFormula lib ?store' sid dependent = Inl (PropagatedError DivisionByZero)"
    if "compileFormula dependent = Inr e \<and> readsFirst lib ?store' sid (col, r) e"
    for dependent e
    using that e [of e] by (simp add: evaluateFormula_def)
  from s p e f division_by_zero [of lib store sid] show ?thesis by blast
qed

text \<open>
  This at sheet 1 with the formula \<open>=10/0\<close> in A1, read by \<open>=A1+1\<close>, \<open>=SUM(A1)\<close>,
  \<open>=SUM(A1:A3)\<close> and \<open>=IF(A1,1,2)\<close>; and at the sheet with 10 in A1, 0 in B1 and \<open>=A1/B1\<close>
  in C1.
\<close>

lemma division_by_zero_stored_and_propagated_examples:
  "divisionSheet (1, 1, 1) = Some divisionCell \<and> cs_formula divisionCell = Some ''=10/0''
   \<and> evaluateFormula plainLibrary divisionSheet 1 ''=10/0'' = Inl DivisionByZero
   \<and> erroredSheet (1, 1, 1)
       = Some (divisionCell\<lparr> cs_calculatedValue := None, cs_error := Some DivisionByZero \<rparr>)
   \<and> evaluateFormula plainLibrary erroredSheet 1 ''=A1+1'' = Inl (PropagatedError DivisionByZero)
   \<and> evaluateFormula plainLibrary erroredSheet 1 ''=SUM(A1)'' = Inl (PropagatedError DivisionByZero)
   \<and> evaluateFormula plainLibrary erroredSheet 1 ''=SUM(A1:A3)''
       = Inl (PropagatedError DivisionByZero)
   \<and> evaluateFormula plainLibrary erroredSheet 1 ''=IF(A1,1,2)''
       = Inl (PropagatedError DivisionByZero)
   \<and> evaluateFormula plainLibrary quotientSheet 1 ''=A1/B1'' = Inl DivisionByZero
   \<and> resolveCell (evaluateCell plainLibrary quotientSheet (1, 1, 3)) (1, 1, 3)
       = Inl (PropagatedError DivisionByZero)"
proof -
  have c: "divisionSheet (1, 1, 1) = Some divisionCell" "cs_formula divisionCell = Some ''=10/0''"
    by (simp_all add: divisionSheet_def divisionCell_def)
  note d = evaluate_division [of plainLibrary divisionSheet 1]
  note t = division_by_zero_stored_and_propagated [OF c d, folded erroredSheet_def]
  have r: "readsFirst plainLibrary erroredSheet 1 (1, 1) (BinaryOp OpAdd (CellRef 1 1) (Literal (Number 1)))"
      "readsFirst plainLibrary erroredSheet 1 (1, 1) (FunctionCall ''SUM'' [CellRef 1 1])"
      "readsFirst plainLibrary erroredSheet 1 (1, 1) (FunctionCall ''SUM'' [RangeRef 1 1 1 3])"
      "readsFirst plainLibrary erroredSheet 1 (1, 1)
         (FunctionCall ''IF'' [CellRef 1 1, Literal (Number 1), Literal (Number 2)])"
    by (simp_all add: rangeCells_def upt_rec)
  have dep: "evaluateFormula plainLibrary erroredSheet 1 ''=A1+1'' = Inl (PropagatedError DivisionByZero)"
      "evaluateFormula plainLibrary erroredSheet 1 ''=SUM(A1)'' = Inl (PropagatedError DivisionByZero)"
      "evaluateFormula plainLibrary erroredSheet 1 ''=SUM(A1:A3)'' = Inl (PropagatedError DivisionByZero)"
      "evaluateFormula plainLibrary erroredSheet 1 ''=IF(A1,1,2)'' = Inl (PropagatedError DivisionByZero)"
    using t compile_dependents r by blast+
  have q: "quotientSheet (1, 1, 3)
             = Some \<lparr> cs_value = ''=A1/B1'', cs_formula = Some ''=A1/B1'',
                      cs_dataType = FormulaCell, cs_calculatedValue = None, cs_error = None \<rparr>"
      "cs_formula \<lparr> cs_value = ''=A1/B1'', cs_formula = Some ''=A1/B1'',
                    cs_dataType = FormulaCell, cs_calculatedValue = None, cs_error = None \<rparr>
         = Some ''=A1/B1''"
    by (simp_all add: quotientSheet_def)
  have v: "resolveCell quotientSheet (1, 1, 1) = Inr (Number 10)"
      "resolveCell quotientSheet (1, 1, 2) = Inr (Number 0)"
    by (simp_all add: quotientSheet_def resolveCell_def literalCell_def coerceLiteral_def
        parseNumber_def lexer_defs)
  have "eval plainLibrary quotientSheet 1 (BinaryOp OpDiv (CellRef 1 1) (CellRef 2 1))
          = Inl DivisionByZero"
    using division_by_zero_stored_and_propagated [OF c d] v
    by (simp add: applyBinary_def toNumber_def arithmetic_def)
  then have qd: "evaluateFormula plainLibrary quotientSheet 1 ''=A1/B1'' = Inl DivisionByZero"
    by (simp add: evaluateFormula_def compile_quotient)
  from division_by_zero_stored_and_propagated [OF q qd]
  have "resolveCell (evaluateCell plainLibrary quotientSheet (1, 1, 3)) (1, 1, 3)
          = Inl (PropagatedError DivisionByZero)"
    by blast
  with c d erroredSheet_A1 dep qd show ?thesis by simp
qed

text \<open>
  A formula that references the cell in error without reading it does not evaluate to the
  propagated error. \<open>=IF(1,5,A1)\<close> references A1, which holds \<open>DivisionByZero\<close>, in the
  branch that is not taken, and evaluates to 5 (section 4.4: only the chosen branch is
  evaluated). \<open>=1/0+A1\<close> fails before it reads A1, and its error is its own
  \<open>DivisionByZero\<close>, not a propagated one.
\<close>

lemma untaken_branch_example:
  "compileFormula ''=IF(1,5,A1)''
     = Inr (FunctionCall ''IF'' [Literal (Number 1), Literal (Number 5), CellRef 1 1])
   \<and> erroredSheet (1, 1, 1)
       = Some (divisionCell\<lparr> cs_calculatedValue := None, cs_error := Some DivisionByZero \<rparr>)
   \<and> resolveCell erroredSheet (1, 1, 1) = Inl (PropagatedError DivisionByZero)
   \<and> evaluateFormula plainLibrary erroredSheet 1 ''=IF(1,5,A1)'' = Inr (Number 5)
   \<and> evaluateFormula plainLibrary erroredSheet 1 ''=1/0+A1'' = Inl DivisionByZero"
proof -
  have "resolveCell erroredSheet (1, 1, 1) = Inl (PropagatedError DivisionByZero)"
    unfolding resolveCell_def erroredSheet_A1 by (simp add: propagate_def)
  moreover have "evaluateFormula plainLibrary erroredSheet 1 ''=IF(1,5,A1)'' = Inr (Number 5)"
    unfolding evaluateFormula_def compile_if_untaken by (simp add: truthy_def)
  moreover have "evaluateFormula plainLibrary erroredSheet 1 ''=1/0+A1'' = Inl DivisionByZero"
    unfolding evaluateFormula_def compile_fails_before
    by (simp add: applyBinary_def toNumber_def arithmetic_def)
  ultimately show ?thesis using erroredSheet_A1 compile_if_untaken by simp
qed

end
